(* ===== verification/Prelude.thy ===== *)
theory Prelude
  imports Main "HOL-Library.Word" "HOL-Library.Monad_Syntax"
begin

text \<open>
  Shared vocabulary of the development: the machine integers of the Rust program, byte
  strings, the result of a fallible Rust function (a value, an \<open>io::Error\<close> or a panic),
  checked slice access, and big-endian number encodings with their length and round-trip
  lemmas. The collections declared here gather the facts the component proofs share.
\<close>

named_theorems crate_laws \<open>documented behaviour of the third-party crates\<close>
named_theorems frame_defs \<open>definitions that unfold one codec step\<close>
named_theorems handler_defs \<open>definitions that unfold one actor handler\<close>

section \<open>Machine integers and byte strings\<close>

type_synonym u8 = "8 word"
type_synonym u16 = "16 word"
type_synonym u32 = "32 word"
type_synonym u64 = "64 word"
type_synonym u128 = "128 word"

text \<open>An \<open>i16\<close> is kept as its 16 bits; its value is read with \<open>sint\<close>.\<close>

type_synonym i16 = "16 word"

lemma unat_u8_less [simp]: "unat (w :: u8) < 256"
  using unsigned_less [of w, where ?'a = nat] by simp

lemma unat_u16_less [simp]: "unat (w :: u16) < 65536"
  using unsigned_less [of w, where ?'a = nat] by simp

lemma unat_u32_less [simp]: "unat (w :: u32) < 4294967296"
  using unsigned_less [of w, where ?'a = nat] by simp

lemma u8_eqI: "unat (v :: u8) = unat w \<Longrightarrow> v = w"
  by (rule unsigned_word_eqI)

text \<open>
  A \<open>usize\<close> is a natural number: the program only adds lengths of buffers, the constants of
  the frame layout, tag lengths and values below \<open>2 ^ 32\<close>, which a 64-bit target cannot
  overflow; every subtraction is guarded or has its underflow written out as a panic.
  A Rust \<open>String\<close> is its UTF-8 bytes.
\<close>

type_synonym bytes = "u8 list"
type_synonym rstring = "u8 list"

section \<open>Results\<close>

text \<open>
  The two \<open>io::Error\<close> values the program builds itself, and a panic (\<open>panic!()\<close>,
  \<open>unwrap()\<close> of an error, an index out of range).
\<close>

datatype io_error = DecError | EncError

datatype fault = Err io_error | Panic

type_synonym 'a res = "fault + 'a"

definition unwrap :: "'a option \<Rightarrow> 'a res" where
  "unwrap x = (case x of None \<Rightarrow> Inl Panic | Some v \<Rightarrow> Inr v)"

lemma unwrap_simps [simp]:
  "unwrap None = Inl Panic"
  "unwrap (Some v) = Inr v"
  by (simp_all add: unwrap_def)

lemma unwrap_eq [simp]:
  "unwrap x = Inr v \<longleftrightarrow> x = Some v"
  "unwrap x = Inl e \<longleftrightarrow> x = None \<and> e = Panic"
  by (auto simp: unwrap_def split: option.splits)

text \<open>The \<open>?\<close>-style sequencing of fallible steps.\<close>

definition and_then :: "'a res \<Rightarrow> ('a \<Rightarrow> 'b res) \<Rightarrow> 'b res" where
  "and_then r f = (case r of Inl e \<Rightarrow> Inl e | Inr v \<Rightarrow> f v)"

lemma and_then_simps [simp]:
  "and_then (Inl e) f = Inl e"
  "and_then (Inr v) f = f v"
  by (simp_all add: and_then_def)

lemma and_then_Inr [simp]:
  "and_then r f = Inr w \<longleftrightarrow> (\<exists>v. r = Inr v \<and> f v = Inr w)"
  by (cases r) auto

text \<open>Slice indexing: out of range is no value (\<open>get\<close>) or a panic (\<open>xs[i]\<close>).\<close>

definition idx :: "'a list \<Rightarrow> nat \<Rightarrow> 'a option" where
  "idx xs i = (if i < length xs then Some (xs ! i) else None)"

definition subslice :: "'a list \<Rightarrow> nat \<Rightarrow> nat \<Rightarrow> 'a list option" where
  "subslice xs i j = (if i \<le> j \<and> j \<le> length xs then Some (take (j - i) (drop i xs)) else None)"

lemma idx_in [simp]: "i < length xs \<Longrightarrow> idx xs i = Some (xs ! i)"
  by (simp add: idx_def)

lemma idx_out [simp]: "length xs \<le> i \<Longrightarrow> idx xs i = None"
  by (simp add: idx_def)

lemma idx_eq_None [simp]: "idx xs i = None \<longleftrightarrow> length xs \<le> i"
  by (auto simp: idx_def)

lemma subslice_in [simp]:
  "i \<le> j \<Longrightarrow> j \<le> length xs \<Longrightarrow> subslice xs i j = Some (take (j - i) (drop i xs))"
  by (simp add: subslice_def)

section \<open>Big-endian numbers\<close>

text \<open>
  \<open>be_bytes k n\<close> is the \<open>k\<close>-byte big-endian representation of \<open>n\<close> (its low \<open>8 * k\<close>
  bits), \<open>be_nat bs\<close> the number a byte string stands for.
\<close>

primrec be_bytes :: "nat \<Rightarrow> nat \<Rightarrow> bytes" where
  "be_bytes 0 n = []"
| "be_bytes (Suc k) n = be_bytes k (n div 256) @ [word_of_nat n]"

definition be_nat :: "bytes \<Rightarrow> nat" where
  "be_nat bs = foldl (\<lambda>a b. a * 256 + unat b) 0 bs"

lemma be_bytes_eval:
  "be_bytes (numeral k) n = be_bytes (pred_numeral k) (n div 256) @ [word_of_nat n]"
  by (subst numeral_eq_Suc) (rule be_bytes.simps(2))

lemma length_be_bytes [simp]: "length (be_bytes k n) = k"
  by (induction k arbitrary: n) auto

lemma be_nat_Nil [simp]: "be_nat [] = 0"
  by (simp add: be_nat_def)

lemma be_nat_snoc [simp]: "be_nat (bs @ [b]) = be_nat bs * 256 + unat b"
  by (simp add: be_nat_def)

lemma be_nat_bound: "be_nat bs < 256 ^ length bs"
proof (induction bs rule: rev_induct)
  case Nil
  show ?case by simp
next
  case (snoc b bs)
  have "be_nat (bs @ [b]) < 256 * Suc (be_nat bs)"
    using unat_u8_less [of b] by (simp del: unat_u8_less)
  moreover have "Suc (be_nat bs) \<le> 256 ^ length bs" using snoc by simp
  then have "256 * Suc (be_nat bs) \<le> 256 * 256 ^ length bs" by (rule mult_le_mono2)
  ultimately have "be_nat (bs @ [b]) < 256 * 256 ^ length bs" by linarith
  then show ?case by simp
qed

lemma be_nat_be_bytes: "be_nat (be_bytes k n) = n mod 256 ^ k"
proof (induction k arbitrary: n)
  case 0
  show ?case by simp
next
  case (Suc k)
  have "n mod 256 ^ Suc k = 256 * (n div 256 mod 256 ^ k) + n mod 256"
    using mod_mult2_eq [of n 256 "256 ^ k"] by (simp add: mult.commute)
  with Suc show ?case by (simp add: unat_of_nat)
qed

lemma be_bytes_be_nat: "be_bytes (length bs) (be_nat bs) = bs"
proof (induction bs rule: rev_induct)
  case Nil
  show ?case by simp
next
  case (snoc b bs)
  have "(word_of_nat (be_nat bs * 256 + unat b) :: u8) = b"
    by (rule u8_eqI) (simp only: unat_of_nat, simp)
  with snoc show ?case by simp
qed

text \<open>Reading back a number that fits its width gives the number.\<close>

lemma be_nat_word16 [simp]: "be_nat (be_bytes 2 (unat (w :: u16))) = unat w"
  by (simp add: be_nat_be_bytes)

lemma be_nat_word32 [simp]: "be_nat (be_bytes 4 (unat (w :: u32))) = unat w"
  by (simp add: be_nat_be_bytes)

lemma be_nat_word128 [simp]: "be_nat (be_bytes 16 (unat (w :: u128))) = unat w"
  using unsigned_less [of w, where ?'a = nat] by (simp add: be_nat_be_bytes)

text \<open>Writing a number that was read gives the bytes back.\<close>

lemma be_bytes_word16 [simp]:
  "length bs = 2 \<Longrightarrow> be_bytes 2 (unat (word_of_nat (be_nat bs) :: u16)) = bs"
  using be_bytes_be_nat [of bs] be_nat_bound [of bs] by (simp add: unat_of_nat)

lemma be_bytes_word32 [simp]:
  "length bs = 4 \<Longrightarrow> be_bytes 4 (unat (word_of_nat (be_nat bs) :: u32)) = bs"
  using be_bytes_be_nat [of bs] be_nat_bound [of bs] by (simp add: unat_of_nat)

lemma be_bytes_word128 [simp]:
  "length bs = 16 \<Longrightarrow> be_bytes 16 (unat (word_of_nat (be_nat bs) :: u128)) = bs"
  using be_bytes_be_nat [of bs] be_nat_bound [of bs] by (simp add: unat_of_nat)

section \<open>Lists\<close>

lemma length2_conv: "length xs = 2 \<Longrightarrow> \<exists>a b. xs = [a, b]"
  by (auto simp: numeral_eq_Suc length_Suc_conv)

lemma length4_conv: "length xs = 4 \<Longrightarrow> \<exists>a b c d. xs = [a, b, c, d]"
  by (auto simp: numeral_eq_Suc length_Suc_conv)

lemma take_append_le: "n \<le> length xs \<Longrightarrow> take n (xs @ ys) = take n xs"
  by simp

lemma drop_5_plus [simp]: "drop (5 + n) (a # b # c # d # e # xs) = drop n xs"
  by (simp add: numeral_eq_Suc)

lemma drop_append_le: "n \<le> length xs \<Longrightarrow> drop n (xs @ ys) = drop n xs @ ys"
  by simp

end
