(* ===== verification/Crates.thy ===== *)
theory Crates
  imports Prelude
begin

text \<open>
  The third-party crates the program calls, whose code is not part of the repository: they
  are parameters of the model. A value \<open>L\<close> of one of the three records below is an argument
  of every definition that calls the crate; \<open>None\<close> stands for a call that panics or returns
  an error. What the program relies on is stated as three named predicates over \<open>L\<close>
  (\<open>bytes_ok\<close>, \<open>byteorder_ok\<close>, \<open>ring_ok\<close>), each the documented behaviour of the
  functions called.
\<close>

section \<open>The bytes crate\<close>

text \<open>
  A \<open>BytesMut\<close> that is written to is its contents and its capacity: in version 0.4 a
  \<open>put\<close> beyond the capacity panics, and only \<open>reserve\<close> allocates. A \<open>BytesMut\<close> or
  \<open>Bytes\<close> that is only read is its contents.
\<close>

record bytes_mut =
  contents :: bytes
  capacity :: nat

definition append_within :: "bytes_mut \<Rightarrow> bytes \<Rightarrow> bytes_mut option" where
  "append_within b xs =
     (if length (contents b) + length xs \<le> capacity b
      then Some (b\<lparr>contents := contents b @ xs\<rparr>) else None)"

lemma append_within_fits [simp]:
  "length (contents b) + length xs \<le> capacity b \<Longrightarrow>
   append_within b xs = Some (b\<lparr>contents := contents b @ xs\<rparr>)"
  by (simp add: append_within_def)

lemma append_within_full [simp]:
  "capacity b < length (contents b) + length xs \<Longrightarrow> append_within b xs = None"
  by (simp add: append_within_def)

lemma append_within_Some:
  "append_within b xs = Some b' \<Longrightarrow> contents b' = contents b @ xs \<and> capacity b' = capacity b"
  by (auto simp: append_within_def split: if_splits)

record bytes_crate =
  bm_new :: bytes_mut
  bm_reserve :: "bytes_mut \<Rightarrow> nat \<Rightarrow> bytes_mut"
  bm_put :: "bytes_mut \<Rightarrow> bytes \<Rightarrow> bytes_mut option"
  bm_put_u8 :: "bytes_mut \<Rightarrow> u8 \<Rightarrow> bytes_mut option"
  bm_put_u16_be :: "bytes_mut \<Rightarrow> u16 \<Rightarrow> bytes_mut option"
  bm_put_i16_be :: "bytes_mut \<Rightarrow> i16 \<Rightarrow> bytes_mut option"
  bm_put_u32_be :: "bytes_mut \<Rightarrow> u32 \<Rightarrow> bytes_mut option"
  bm_split_to :: "bytes \<Rightarrow> nat \<Rightarrow> (bytes \<times> bytes) option"
  bm_take :: "bytes \<Rightarrow> bytes \<times> bytes"
  bm_truncate :: "bytes \<Rightarrow> nat \<Rightarrow> bytes"

definition bytes_ok :: "'x bytes_crate_scheme \<Rightarrow> bool" where
  "bytes_ok L \<longleftrightarrow>
     contents (bm_new L) = [] \<and>
     (\<forall>b n. contents (bm_reserve L b n) = contents b \<and>
            length (contents b) + n \<le> capacity (bm_reserve L b n) \<and>
            capacity b \<le> capacity (bm_reserve L b n)) \<and>
     (\<forall>b xs. bm_put L b xs = append_within b xs) \<and>
     (\<forall>b v. bm_put_u8 L b v = append_within b [v]) \<and>
     (\<forall>b v. bm_put_u16_be L b v = append_within b (be_bytes 2 (unat v))) \<and>
     (\<forall>b v. bm_put_i16_be L b v = append_within b (be_bytes 2 (unat v))) \<and>
     (\<forall>b v. bm_put_u32_be L b v = append_within b (be_bytes 4 (unat v))) \<and>
     (\<forall>bs n. bm_split_to L bs n =
            (if n \<le> length bs then Some (take n bs, drop n bs) else None)) \<and>
     (\<forall>bs. bm_take L bs = (bs, [])) \<and>
     (\<forall>bs n. bm_truncate L bs n = take n bs)"

lemma bytes_okD [crate_laws]:
  assumes "bytes_ok L"
  shows "contents (bm_new L) = []"
    and "contents (bm_reserve L b n) = contents b"
    and "bm_put L b xs = append_within b xs"
    and "bm_put_u8 L b v8 = append_within b [v8]"
    and "bm_put_u16_be L b v16 = append_within b (be_bytes 2 (unat v16))"
    and "bm_put_i16_be L b v16 = append_within b (be_bytes 2 (unat v16))"
    and "bm_put_u32_be L b v32 = append_within b (be_bytes 4 (unat v32))"
    and "bm_split_to L bs n = (if n \<le> length bs then Some (take n bs, drop n bs) else None)"
    and "bm_take L bs = (bs, [])"
    and "bm_truncate L bs n = take n bs"
  using assms by (simp_all add: bytes_ok_def)

lemma reserve_room:
  assumes "bytes_ok L"
  shows "length (contents b) + n \<le> capacity (bm_reserve L b n)"
  using assms by (simp add: bytes_ok_def)

text \<open>A reserved buffer takes what it was reserved for.\<close>

lemma reserve_fits:
  assumes "bytes_ok L" and "k \<le> n"
  shows "length (contents b) + k \<le> capacity (bm_reserve L b n)"
  using reserve_room [OF assms(1), of b n] assms(2) by linarith

section \<open>The byteorder crate\<close>

record wire_crates = bytes_crate +
  rd_u16 :: "bytes \<Rightarrow> u16 option"
  rd_i16 :: "bytes \<Rightarrow> i16 option"
  rd_u32 :: "bytes \<Rightarrow> u32 option"
  rd_u128 :: "bytes \<Rightarrow> u128 option"
  wr_u32 :: "bytes \<Rightarrow> u32 \<Rightarrow> bytes option"

definition byteorder_ok :: "'x wire_crates_scheme \<Rightarrow> bool" where
  "byteorder_ok L \<longleftrightarrow>
     (\<forall>bs. rd_u16 L bs = (if 2 \<le> length bs then Some (word_of_nat (be_nat (take 2 bs))) else None)) \<and>
     (\<forall>bs. rd_i16 L bs = (if 2 \<le> length bs then Some (word_of_nat (be_nat (take 2 bs))) else None)) \<and>
     (\<forall>bs. rd_u32 L bs = (if 4 \<le> length bs then Some (word_of_nat (be_nat (take 4 bs))) else None)) \<and>
     (\<forall>bs. rd_u128 L bs = (if 16 \<le> length bs then Some (word_of_nat (be_nat (take 16 bs))) else None)) \<and>
     (\<forall>bs v. wr_u32 L bs v = (if 4 \<le> length bs then Some (be_bytes 4 (unat v) @ drop 4 bs) else None))"

lemma byteorder_okD [crate_laws]:
  assumes "byteorder_ok L"
  shows "rd_u16 L bs = (if 2 \<le> length bs then Some (word_of_nat (be_nat (take 2 bs))) else None)"
    and "rd_i16 L bs = (if 2 \<le> length bs then Some (word_of_nat (be_nat (take 2 bs))) else None)"
    and "rd_u32 L bs = (if 4 \<le> length bs then Some (word_of_nat (be_nat (take 4 bs))) else None)"
    and "rd_u128 L bs = (if 16 \<le> length bs then Some (word_of_nat (be_nat (take 16 bs))) else None)"
    and "wr_u32 L bs v = (if 4 \<le> length bs then Some (be_bytes 4 (unat v) @ drop 4 bs) else None)"
  using assms by (simp_all add: byteorder_ok_def)

section \<open>The ring crate\<close>

text \<open>The static algorithm descriptors the configuration names.\<close>

datatype aead_algorithm = AES_256_GCM | AES_128_GCM | CHACHA20_POLY1305

datatype digest_algorithm = SHA1 | SHA256 | SHA384 | SHA512 | SHA512_256

text \<open>
  Opening and sealing keys are opaque. \<open>open_in_place\<close> and \<open>seal_in_place\<close> return the
  \<open>Result\<close> and the buffer they worked in; the plaintext slice an opening returns is the
  front of that buffer.
\<close>

record ('ok, 'sk) crates = wire_crates +
  pbkdf2_derive :: "digest_algorithm \<Rightarrow> u32 \<Rightarrow> bytes \<Rightarrow> bytes \<Rightarrow> bytes \<Rightarrow> bytes"
  alg_tag_len :: "aead_algorithm \<Rightarrow> nat"
  opening_key_new :: "aead_algorithm \<Rightarrow> bytes \<Rightarrow> 'ok option"
  sealing_key_new :: "aead_algorithm \<Rightarrow> bytes \<Rightarrow> 'sk option"
  nonce_try_assume :: "bytes \<Rightarrow> bytes option"
  open_in_place :: "'ok \<Rightarrow> bytes \<Rightarrow> bytes \<Rightarrow> nat \<Rightarrow> bytes \<Rightarrow> bytes option \<times> bytes"
  seal_in_place :: "'sk \<Rightarrow> bytes \<Rightarrow> bytes \<Rightarrow> bytes \<Rightarrow> nat \<Rightarrow> nat option \<times> bytes"

text \<open>The documented key lengths.\<close>

fun documented_key_len :: "aead_algorithm \<Rightarrow> nat" where
  "documented_key_len AES_256_GCM = 32"
| "documented_key_len AES_128_GCM = 16"
| "documented_key_len CHACHA20_POLY1305 = 32"

text \<open>The two keys of one direction of the tunnel: both made from the same key bytes.\<close>

definition key_pair ::
    "('ok, 'sk, 'x) crates_scheme \<Rightarrow> aead_algorithm \<Rightarrow> bytes \<Rightarrow> 'ok \<Rightarrow> 'sk \<Rightarrow> bool" where
  "key_pair L a kb ok sk \<longleftrightarrow> opening_key_new L a kb = Some ok \<and> sealing_key_new L a kb = Some sk"

text \<open>
  Sealing succeeds (within the algorithms' input limit, which is above \<open>2 ^ 33\<close> bytes) when
  the reserved suffix is the tag's length, keeps the buffer's length, and the result opens to
  the plaintext under the same nonce and associated data.
\<close>

definition aead_seals :: "('ok, 'sk, 'x) crates_scheme \<Rightarrow> bool" where
  "aead_seals L \<longleftrightarrow>
     (\<forall>a kb ok sk n aad buf. key_pair L a kb ok sk \<longrightarrow> length n = 12 \<longrightarrow>
        alg_tag_len L a \<le> length buf \<longrightarrow> length buf \<le> 2 ^ 33 \<longrightarrow>
        (\<exists>ct pl. seal_in_place L sk n aad buf (alg_tag_len L a) = (Some (length buf), ct) \<and>
                 length ct = length buf \<and>
                 open_in_place L ok n aad 0 ct = (Some (take (length buf - alg_tag_len L a) buf), pl)))"

text \<open>
  Whatever opens is the sealing of what it opens to (the tag is a function of key, nonce,
  associated data and ciphertext), and the plaintext is left at the front of the buffer.
\<close>

definition aead_opens :: "('ok, 'sk, 'x) crates_scheme \<Rightarrow> bool" where
  "aead_opens L \<longleftrightarrow>
     (\<forall>a kb ok sk n aad ct p pl. key_pair L a kb ok sk \<longrightarrow> length n = 12 \<longrightarrow>
        open_in_place L ok n aad 0 ct = (Some p, pl) \<longrightarrow>
        length ct = length p + alg_tag_len L a \<and> length pl = length ct \<and>
        take (length p) pl = p \<and>
        (\<forall>suffix. length suffix = alg_tag_len L a \<longrightarrow>
           seal_in_place L sk n aad (p @ suffix) (alg_tag_len L a) = (Some (length ct), ct)))"

definition ring_ok :: "('ok, 'sk, 'x) crates_scheme \<Rightarrow> bool" where
  "ring_ok L \<longleftrightarrow>
     (\<forall>d i salt key out. length (pbkdf2_derive L d i salt key out) = length out) \<and>
     (\<forall>a. alg_tag_len L a = 16) \<and>
     (\<forall>a kb. opening_key_new L a kb \<noteq> None \<longleftrightarrow> length kb = documented_key_len a) \<and>
     (\<forall>a kb. sealing_key_new L a kb \<noteq> None \<longleftrightarrow> length kb = documented_key_len a) \<and>
     (\<forall>n. nonce_try_assume L n = (if length n = 12 then Some n else None)) \<and>
     aead_seals L \<and> aead_opens L"

lemma ring_okD [crate_laws]:
  assumes "ring_ok L"
  shows "length (pbkdf2_derive L d i salt key out) = length out"
    and "alg_tag_len L a = 16"
    and "nonce_try_assume L n = (if length n = 12 then Some n else None)"
  using assms by (simp_all add: ring_ok_def)

lemma opening_key_new_ok:
  assumes "ring_ok L"
  shows "(\<exists>ok. opening_key_new L a kb = Some ok) \<longleftrightarrow> length kb = documented_key_len a"
  using assms by (auto simp: ring_ok_def)

lemma sealing_key_new_ok:
  assumes "ring_ok L"
  shows "(\<exists>sk. sealing_key_new L a kb = Some sk) \<longleftrightarrow> length kb = documented_key_len a"
  using assms by (auto simp: ring_ok_def)

lemma seal_then_open:
  assumes "ring_ok L" and "key_pair L a kb ok sk" and "length n = 12"
    and "16 \<le> length buf" and "length buf \<le> 2 ^ 33"
  obtains ct pl where
    "seal_in_place L sk n aad buf 16 = (Some (length buf), ct)" and "length ct = length buf"
    and "open_in_place L ok n aad 0 ct = (Some (take (length buf - 16) buf), pl)"
proof -
  from assms(1) have t: "alg_tag_len L a = 16" and s: "aead_seals L"
    by (simp_all add: ring_ok_def)
  from s [unfolded aead_seals_def, rule_format, OF assms(2,3), of buf aad] assms(4,5)
  show thesis unfolding t by (auto intro: that)
qed

lemma open_shape:
  assumes "ring_ok L" and "key_pair L a kb ok sk" and "length n = 12"
    and "open_in_place L ok n aad 0 ct = (Some p, pl)"
  shows "length ct = length p + 16" and "length pl = length ct" and "take (length p) pl = p"
    and "length suffix = 16 \<Longrightarrow> seal_in_place L sk n aad (p @ suffix) 16 = (Some (length ct), ct)"
proof -
  from assms(1) have t: "alg_tag_len L a = 16" and s: "aead_opens L"
    by (simp_all add: ring_ok_def)
  note * = s [unfolded aead_opens_def, rule_format, OF assms(2-4), unfolded t]
  from * show "length ct = length p + 16" by blast
  from * show "length pl = length ct" by blast
  from * show "take (length p) pl = p" by blast
  from * show "length suffix = 16 \<Longrightarrow>
      seal_in_place L sk n aad (p @ suffix) 16 = (Some (length ct), ct)" by blast
qed

end
