(* ===== verification/Crates_Ref.thy ===== *)
theory Crates_Ref
  imports Crates
begin

text \<open>
  One computable instance of the third-party interface, on which the witnesses evaluate the
  model: buffers that grow to exactly what is reserved, big-endian numbers, and an
  authenticated-encryption scheme that satisfies the laws of \<open>ring_ok\<close> (it adds a
  key-dependent byte to every byte and appends a checksum of key, nonce, associated data and
  plaintext as its tag). It shows that the hypotheses \<open>bytes_ok\<close>, \<open>byteorder_ok\<close> and
  \<open>ring_ok\<close> can hold together; it is not a model of the real ciphers.
\<close>

type_synonym ref_key = "aead_algorithm \<times> bytes"

definition ref_tag :: "ref_key \<Rightarrow> bytes \<Rightarrow> bytes \<Rightarrow> bytes \<Rightarrow> bytes" where
  "ref_tag k n aad p =
     replicate 16 (sum_list (snd k) + sum_list n + 3 * sum_list aad + 5 * sum_list p + 1)"

definition ref_pad :: "ref_key \<Rightarrow> u8" where
  "ref_pad k = sum_list (snd k) + 90"

definition ref_open ::
    "ref_key \<Rightarrow> bytes \<Rightarrow> bytes \<Rightarrow> nat \<Rightarrow> bytes \<Rightarrow> bytes option \<times> bytes" where
  "ref_open k n aad prefix ct =
     (let m = length ct - 16; p = map (\<lambda>b. b - ref_pad k) (take m ct)
      in if prefix = 0 \<and> 16 \<le> length ct \<and> drop m ct = ref_tag k n aad p
         then (Some p, p @ drop m ct) else (None, ct))"

definition ref_seal ::
    "ref_key \<Rightarrow> bytes \<Rightarrow> bytes \<Rightarrow> bytes \<Rightarrow> nat \<Rightarrow> nat option \<times> bytes" where
  "ref_seal k n aad buf suffix =
     (let m = length buf - 16; p = take m buf
      in if suffix = 16 \<and> 16 \<le> length buf
         then (Some (length buf), map (\<lambda>b. b + ref_pad k) p @ ref_tag k n aad p) else (None, buf))"

definition ref_key_new :: "aead_algorithm \<Rightarrow> bytes \<Rightarrow> ref_key option" where
  "ref_key_new a kb = (if length kb = documented_key_len a then Some (a, kb) else None)"

definition ref_derive ::
    "digest_algorithm \<Rightarrow> u32 \<Rightarrow> bytes \<Rightarrow> bytes \<Rightarrow> bytes \<Rightarrow> bytes" where
  "ref_derive d i salt key out = map (\<lambda>b. b + sum_list salt + sum_list key) out"

definition ref_crates :: "(ref_key, ref_key) crates" where
  "ref_crates =
     \<lparr>bm_new = \<lparr>contents = [], capacity = 31\<rparr>,
      bm_reserve = (\<lambda>b n. b\<lparr>capacity := max (capacity b) (length (contents b) + n)\<rparr>),
      bm_put = append_within,
      bm_put_u8 = (\<lambda>b v. append_within b [v]),
      bm_put_u16_be = (\<lambda>b v. append_within b (be_bytes 2 (unat v))),
      bm_put_i16_be = (\<lambda>b v. append_within b (be_bytes 2 (unat v))),
      bm_put_u32_be = (\<lambda>b v. append_within b (be_bytes 4 (unat v))),
      bm_split_to = (\<lambda>bs n. if n \<le> length bs then Some (take n bs, drop n bs) else None),
      bm_take = (\<lambda>bs. (bs, [])),
      bm_truncate = (\<lambda>bs n. take n bs),
      rd_u16 = (\<lambda>bs. if 2 \<le> length bs then Some (word_of_nat (be_nat (take 2 bs))) else None),
      rd_i16 = (\<lambda>bs. if 2 \<le> length bs then Some (word_of_nat (be_nat (take 2 bs))) else None),
      rd_u32 = (\<lambda>bs. if 4 \<le> length bs then Some (word_of_nat (be_nat (take 4 bs))) else None),
      rd_u128 = (\<lambda>bs. if 16 \<le> length bs then Some (word_of_nat (be_nat (take 16 bs))) else None),
      wr_u32 = (\<lambda>bs v. if 4 \<le> length bs then Some (be_bytes 4 (unat v) @ drop 4 bs) else None),
      pbkdf2_derive = ref_derive,
      alg_tag_len = (\<lambda>a. 16),
      opening_key_new = ref_key_new,
      sealing_key_new = ref_key_new,
      nonce_try_assume = (\<lambda>n. if length n = 12 then Some n else None),
      open_in_place = ref_open,
      seal_in_place = ref_seal\<rparr>"

lemma ref_bytes_ok: "bytes_ok ref_crates"
  by (simp add: bytes_ok_def ref_crates_def)

lemma ref_byteorder_ok: "byteorder_ok ref_crates"
  by (simp add: byteorder_ok_def ref_crates_def)

lemma length_ref_tag [simp]: "length (ref_tag k n aad p) = 16"
  by (simp add: ref_tag_def)

lemma ref_key_pair: "key_pair ref_crates a kb ok sk \<Longrightarrow> ok = (a, kb) \<and> sk = (a, kb)"
  by (auto simp: key_pair_def ref_crates_def ref_key_new_def split: if_splits)

lemma map_cancel_pad:
  "map ((\<lambda>b. b - c) \<circ> (\<lambda>b. b + c)) xs = (xs :: bytes)"
  "map ((\<lambda>b. b + c) \<circ> (\<lambda>b. b - c)) xs = (xs :: bytes)"
  by (induction xs) auto

lemma ref_open_seal:
  assumes "16 \<le> length buf"
  shows "ref_open k n aad 0 (snd (ref_seal k n aad buf 16)) =
         (Some (take (length buf - 16) buf),
          take (length buf - 16) buf @ ref_tag k n aad (take (length buf - 16) buf))"
  using assms by (simp add: ref_seal_def ref_open_def Let_def map_cancel_pad)

lemma ref_seals: "aead_seals ref_crates"
  unfolding aead_seals_def
proof (intro allI impI)
  fix a kb ok sk n aad and buf :: bytes
  assume kp: "key_pair ref_crates a kb ok sk" and "alg_tag_len ref_crates a \<le> length buf"
  then have le: "16 \<le> length buf" by (simp add: ref_crates_def)
  from ref_key_pair [OF kp] have k: "ok = (a, kb)" "sk = (a, kb)" by blast+
  show "\<exists>ct pl. seal_in_place ref_crates sk n aad buf (alg_tag_len ref_crates a) =
            (Some (length buf), ct) \<and> length ct = length buf \<and>
          open_in_place ref_crates ok n aad 0 ct =
            (Some (take (length buf - alg_tag_len ref_crates a) buf), pl)"
    using le ref_open_seal [OF le, of "(a, kb)" n aad]
    by (auto simp: k ref_crates_def ref_seal_def Let_def)
qed

lemma ref_opened:
  assumes "ref_open k n aad 0 ct = (Some p, pl)"
  shows "length ct = length p + 16" and "pl = p @ drop (length p) ct"
    and "ct = map (\<lambda>b. b + ref_pad k) p @ ref_tag k n aad p"
proof -
  let ?m = "length ct - 16"
  from assms have le: "16 \<le> length ct" and p: "p = map (\<lambda>b. b - ref_pad k) (take ?m ct)"
    and tg: "drop ?m ct = ref_tag k n aad p" and pl: "pl = p @ drop ?m ct"
    by (auto simp: ref_open_def Let_def split: if_splits)
  from le p show "length ct = length p + 16" by simp
  moreover from this have "?m = length p" by simp
  ultimately show "pl = p @ drop (length p) ct" using pl by simp
  have "map (\<lambda>b. b + ref_pad k) p = take ?m ct" by (simp add: p map_cancel_pad)
  with tg show "ct = map (\<lambda>b. b + ref_pad k) p @ ref_tag k n aad p"
    by (metis append_take_drop_id)
qed

lemma ref_opens: "aead_opens ref_crates"
  unfolding aead_opens_def
proof (intro allI impI, intro conjI allI impI)
  fix a kb ok sk n aad ct p pl
  assume "key_pair ref_crates a kb ok sk"
  from ref_key_pair [OF this] have k: "ok = (a, kb)" "sk = (a, kb)" by blast+
  assume "open_in_place ref_crates ok n aad 0 ct = (Some p, pl)"
  then have o: "ref_open (a, kb) n aad 0 ct = (Some p, pl)" by (simp add: k ref_crates_def)
  note * = ref_opened [OF o]
  from *(1) show "length ct = length p + alg_tag_len ref_crates a" by (simp add: ref_crates_def)
  from *(1,2) show "length pl = length ct" by simp
  from *(2) show "take (length p) pl = p" by simp
  fix suffix :: bytes
  assume "length suffix = alg_tag_len ref_crates a"
  then have "length suffix = 16" by (simp add: ref_crates_def)
  with *(1,3) show "seal_in_place ref_crates sk n aad (p @ suffix) (alg_tag_len ref_crates a) =
      (Some (length ct), ct)"
    by (simp add: k ref_crates_def ref_seal_def Let_def)
qed

lemma ref_ring_ok: "ring_ok ref_crates"
  using ref_seals ref_opens
  by (simp add: ring_ok_def, simp add: ref_crates_def ref_derive_def ref_key_new_def)

lemmas ref_ok = ref_bytes_ok ref_byteorder_ok ref_ring_ok

end
