(* ===== verification/Rust_Std.thy ===== *)
theory Rust_Std
  imports Prelude
begin

text \<open>
  What the program uses of the Rust standard library on strings and addresses: UTF-8
  validation (\<open>String::from_utf8\<close>), the decimal and hexadecimal \<open>Display\<close> of integers, and
  \<open>Ipv4Addr\<close> / \<open>Ipv6Addr\<close> with their \<open>Display\<close> (of the compiler releases of the crate's
  date, early 2019). Strings are UTF-8 bytes. The lemmas show that every rendered address is
  valid UTF-8 and that rendering a number is injective.
\<close>

definition rstr :: "string \<Rightarrow> rstring" where
  "rstr s = map (\<lambda>c. word_of_nat (of_char c)) s"

section \<open>UTF-8\<close>

definition cont_byte :: "u8 \<Rightarrow> bool" where
  "cont_byte b \<longleftrightarrow> 128 \<le> b \<and> b \<le> 191"

text \<open>
  The length a leading byte announces (0: not a leading byte), the tighter bounds of the second
  byte that rule out overlong forms, surrogates and numbers above \<open>10FFFF\<close>, and the length
  of the well-formed character a byte string starts with.
\<close>

definition lead_len :: "u8 \<Rightarrow> nat" where
  "lead_len b =
     (if b < 128 then 1 else if b < 194 then 0 else if b < 224 then 2
      else if b < 240 then 3 else if b < 245 then 4 else 0)"

definition second_ok :: "u8 \<Rightarrow> u8 \<Rightarrow> bool" where
  "second_ok b c =
     (if b = 224 then 160 \<le> c else if b = 237 then c \<le> 159
      else if b = 240 then 144 \<le> c else if b = 244 then c \<le> 143 else True)"

definition utf8_char :: "bytes \<Rightarrow> nat option" where
  "utf8_char bs = (case bs of [] \<Rightarrow> None | b # r \<Rightarrow>
     (let n = lead_len b; cs = take (n - 1) r in
      if 0 < n \<and> n - 1 \<le> length r \<and> list_all cont_byte cs \<and> (cs = [] \<or> second_ok b (hd cs))
      then Some n else None))"

lemma utf8_char_length: "utf8_char bs = Some n \<Longrightarrow> 0 < n \<and> n \<le> length bs"
  by (cases bs) (auto simp: utf8_char_def Let_def split: if_split_asm)

lemma utf8_char_append: "utf8_char bs = Some n \<Longrightarrow> utf8_char (bs @ cs) = Some n"
  by (cases bs) (auto simp: utf8_char_def Let_def split: if_split_asm)

function valid_utf8 :: "bytes \<Rightarrow> bool" where
  "valid_utf8 bs =
     (if bs = [] then True
      else (case utf8_char bs of None \<Rightarrow> False | Some n \<Rightarrow> valid_utf8 (drop n bs)))"
  by pat_completeness auto
termination
  by (relation "measure length") (auto dest: utf8_char_length)

declare valid_utf8.simps [simp del]

lemma valid_utf8_Nil [simp]: "valid_utf8 []"
  by (simp add: valid_utf8.simps)

lemma valid_utf8_ascii_Cons [simp]: "b < 128 \<Longrightarrow> valid_utf8 (b # r) = valid_utf8 r"
  by (simp add: valid_utf8.simps [of "b # r"] utf8_char_def lead_len_def)

text \<open>\<open>String::from_utf8\<close>; \<open>None\<close> is its \<open>Err\<close>.\<close>

definition from_utf8 :: "bytes \<Rightarrow> rstring option" where
  "from_utf8 bs = (if valid_utf8 bs then Some bs else None)"

lemma from_utf8_valid [simp]: "valid_utf8 s \<Longrightarrow> from_utf8 s = Some s"
  by (simp add: from_utf8_def)

lemma from_utf8_Some [simp]: "from_utf8 bs = Some s \<longleftrightarrow> valid_utf8 bs \<and> s = bs"
  by (auto simp: from_utf8_def)

lemma from_utf8_None [simp]: "from_utf8 bs = None \<longleftrightarrow> \<not> valid_utf8 bs"
  by (simp add: from_utf8_def)

lemma valid_utf8_ascii: "\<forall>b \<in> set bs. b < 128 \<Longrightarrow> valid_utf8 bs"
  by (induction bs) auto

lemma valid_utf8_append:
  "valid_utf8 xs \<Longrightarrow> valid_utf8 ys \<Longrightarrow> valid_utf8 (xs @ ys)"
proof (induction xs rule: valid_utf8.induct)
  case (1 xs)
  show ?case
  proof (cases "utf8_char xs")
    case None
    with 1 have "xs = []" by (simp add: valid_utf8.simps [of xs] split: if_splits)
    with 1 show ?thesis by simp
  next
    case (Some n)
    then have n: "0 < n" "n \<le> length xs" by (auto dest: utf8_char_length)
    then have ne: "xs \<noteq> []" by auto
    with 1 Some have "valid_utf8 (drop n xs @ ys)"
      by (simp add: valid_utf8.simps [of xs])
    with Some n ne show ?thesis
      by (simp add: valid_utf8.simps [of "xs @ ys"] utf8_char_append)
  qed
qed

section \<open>Displaying integers\<close>

definition digit_char :: "nat \<Rightarrow> u8" where
  "digit_char d = word_of_nat (if d < 10 then 48 + d else 87 + d)"

fun dec_digits :: "nat \<Rightarrow> rstring" where
  "dec_digits n =
     (if n < 10 then [digit_char n] else dec_digits (n div 10) @ [digit_char (n mod 10)])"

fun hex_digits :: "nat \<Rightarrow> rstring" where
  "hex_digits n =
     (if n < 16 then [digit_char n] else hex_digits (n div 16) @ [digit_char (n mod 16)])"

declare dec_digits.simps [simp del] hex_digits.simps [simp del]

definition display_i16 :: "i16 \<Rightarrow> rstring" where
  "display_i16 w =
     (if sint w < 0 then 45 # dec_digits (nat (- sint w)) else dec_digits (nat (sint w)))"

section \<open>Addresses\<close>

text \<open>
  \<open>Ipv4Addr::from(u32)\<close> and \<open>Ipv6Addr::from(u128)\<close> take the address in network order, so an
  address is that word.
\<close>

type_synonym ipv4_addr = u32
type_synonym ipv6_addr = u128

definition ipv4_octets :: "ipv4_addr \<Rightarrow> bytes" where
  "ipv4_octets a = be_bytes 4 (unat a)"

definition ipv6_octets :: "ipv6_addr \<Rightarrow> bytes" where
  "ipv6_octets a = be_bytes 16 (unat a)"

fun join_with :: "rstring \<Rightarrow> rstring list \<Rightarrow> rstring" where
  "join_with sep [] = []"
| "join_with sep [x] = x"
| "join_with sep (x # y # ys) = x @ sep @ join_with sep (y # ys)"

definition display_octets :: "bytes \<Rightarrow> rstring" where
  "display_octets bs = join_with (rstr ''.'') (map (\<lambda>b. dec_digits (unat b)) bs)"

definition display_ipv4 :: "ipv4_addr \<Rightarrow> rstring" where
  "display_ipv4 a = display_octets (ipv4_octets a)"

fun segments_of :: "bytes \<Rightarrow> nat list" where
  "segments_of (h # l # r) = (unat h * 256 + unat l) # segments_of r"
| "segments_of _ = []"

definition ipv6_segments :: "ipv6_addr \<Rightarrow> nat list" where
  "ipv6_segments a = segments_of (ipv6_octets a)"

text \<open>\<open>find_zero_slice\<close>: the first longest run of zero segments, as (start, length).\<close>

fun zero_slice :: "nat list \<Rightarrow> nat \<Rightarrow> nat \<times> nat \<Rightarrow> nat \<times> nat \<Rightarrow> nat \<times> nat" where
  "zero_slice [] i cur best = best"
| "zero_slice (s # ss) i (at, len) best =
     (if s = 0 then
        (let cur = (if len = 0 then (i, 1) else (at, len + 1))
         in zero_slice ss (Suc i) cur (if snd best < snd cur then cur else best))
      else zero_slice ss (Suc i) (0, 0) best)"

definition fmt_segments :: "nat list \<Rightarrow> rstring" where
  "fmt_segments ss = join_with (rstr '':'') (map hex_digits ss)"

definition display_ipv6 :: "ipv6_addr \<Rightarrow> rstring" where
  "display_ipv6 a =
     (let ss = ipv6_segments a; tail4 = display_octets (drop 12 (ipv6_octets a)) in
      if ss = [0, 0, 0, 0, 0, 0, 0, 0] then rstr ''::''
      else if ss = [0, 0, 0, 0, 0, 0, 0, 1] then rstr ''::1''
      else if take 6 ss = [0, 0, 0, 0, 0, 0] then rstr ''::'' @ tail4
      else if take 6 ss = [0, 0, 0, 0, 0, 65535] then rstr ''::ffff:'' @ tail4
      else (case zero_slice ss 0 (0, 0) (0, 0) of (zeros_at, zeros_len) \<Rightarrow>
        if 1 < zeros_len
        then fmt_segments (take zeros_at ss) @ rstr ''::'' @ fmt_segments (drop (zeros_at + zeros_len) ss)
        else fmt_segments ss))"

section \<open>Rendered text is ASCII\<close>

definition ascii :: "rstring \<Rightarrow> bool" where
  "ascii s \<longleftrightarrow> (\<forall>b \<in> set s. b < 128)"

lemma ascii_simps [simp]:
  "ascii []"
  "ascii (b # s) \<longleftrightarrow> b < 128 \<and> ascii s"
  "ascii (s @ t) \<longleftrightarrow> ascii s \<and> ascii t"
  by (auto simp: ascii_def)

lemma ascii_valid_utf8 [simp]: "ascii s \<Longrightarrow> valid_utf8 s"
  by (simp add: ascii_def valid_utf8_ascii)

lemma digit_char_ascii [simp]: "d < 16 \<Longrightarrow> digit_char d < 128"
  by (auto simp: digit_char_def word_less_nat_alt unat_of_nat simp del: of_nat_add of_nat_numeral)

lemma ascii_dec_digits [simp]: "ascii (dec_digits n)"
  by (induction n rule: dec_digits.induct) (subst dec_digits.simps, simp)

lemma ascii_hex_digits [simp]: "ascii (hex_digits n)"
  by (induction n rule: hex_digits.induct) (subst hex_digits.simps, simp)

lemma ascii_join_with: "ascii sep \<Longrightarrow> \<forall>x \<in> set xs. ascii x \<Longrightarrow> ascii (join_with sep xs)"
  by (induction sep xs rule: join_with.induct) auto

lemma ascii_display_i16 [simp]: "ascii (display_i16 w)"
  by (simp add: display_i16_def)

lemma ascii_display_octets [simp]: "ascii (display_octets bs)"
  unfolding display_octets_def by (rule ascii_join_with) (auto simp: rstr_def)

lemma ascii_display_ipv4 [simp]: "ascii (display_ipv4 a)"
  by (simp add: display_ipv4_def)

lemma ascii_fmt_segments [simp]: "ascii (fmt_segments ss)"
  unfolding fmt_segments_def by (rule ascii_join_with) (auto simp: rstr_def)

lemma ascii_display_ipv6 [simp]: "ascii (display_ipv6 a)"
  by (auto simp: display_ipv6_def Let_def rstr_def split: prod.splits)

end
