(* ===== verification/Socks_Message.thy ===== *)
theory Socks_Message
  imports Rust_Std
begin

text \<open>
  The SOCKS5 messages (\<open>just-proxy-lib/src/socks/message.rs\<close>): requests read from the
  application, responses written to it, and the rendering of a target as \<open>host:port\<close>.
\<close>

datatype socks_request_command = CONNECT | BIND | UdpAssociate

datatype socks_request_type = IpV4 | DomainType | IpV6

datatype socks_addr = IPV4 ipv4_addr | IPV6 ipv6_addr | DOMAIN rstring

record method_selection_request =
  msq_version :: u8
  msq_n_methods :: u8
  msq_methods :: bytes

record method_selection_response =
  msp_version :: u8
  msp_method :: u8

record target_request =
  tq_version :: u8
  tq_command :: socks_request_command
  tq_reserved :: u8
  tq_request_type :: socks_request_type
  tq_address :: socks_addr
  tq_port :: i16

datatype socks_request =
    SReqNegotiation method_selection_request
  | SReqTarget target_request
  | SReqData bytes

datatype target_response_type =
    TRSucceeded | TRGeneralFailure | TRNotAllowedByRuleset | TRNetworkUnreachable
  | TRHostUnreachable | TRConnectionRefused | TRTTLExpired | TRCommandNotSupported
  | TRAddressTypeNotSupported | TRUnassigned

fun target_response_code :: "target_response_type \<Rightarrow> u8" where
  "target_response_code TRSucceeded = 0"
| "target_response_code TRGeneralFailure = 1"
| "target_response_code TRNotAllowedByRuleset = 2"
| "target_response_code TRNetworkUnreachable = 3"
| "target_response_code TRHostUnreachable = 4"
| "target_response_code TRConnectionRefused = 5"
| "target_response_code TRTTLExpired = 6"
| "target_response_code TRCommandNotSupported = 7"
| "target_response_code TRAddressTypeNotSupported = 8"
| "target_response_code TRUnassigned = 9"

record target_response =
  tp_version :: u8
  tp_response :: target_response_type
  tp_reserved :: u8
  tp_response_type :: socks_request_type
  tp_address :: socks_addr
  tp_port :: i16

datatype socks_response =
    SRespNegotiation method_selection_response
  | SRespTarget target_response
  | SRespData bytes

definition to_addressstring :: "target_request \<Rightarrow> rstring" where
  "to_addressstring self =
     (let s = (case tq_address self of
                 DOMAIN s \<Rightarrow> s
               | IPV6 i \<Rightarrow> display_ipv6 i
               | IPV4 i \<Rightarrow> display_ipv4 i);
          port = display_i16 (tq_port self)
      in s @ rstr '':'' @ port)"

text \<open>The type invariant of an address: a domain is a Rust \<open>String\<close>.\<close>

fun addr_wf :: "socks_addr \<Rightarrow> bool" where
  "addr_wf (DOMAIN s) = valid_utf8 s"
| "addr_wf _ = True"

lemma rstr_colon [simp]: "rstr '':'' = [58]"
  by (simp add: rstr_def)

lemma to_addressstring_utf8: "addr_wf (tq_address t) \<Longrightarrow> valid_utf8 (to_addressstring t)"
  by (auto simp: to_addressstring_def Let_def split: socks_addr.splits intro!: valid_utf8_append)

text \<open>A port whose top bit is set is read as a negative number and rendered with a sign.\<close>

lemma sint_i16: "sint (p :: i16) = (int (unat p) + 32768) mod 65536 - 32768"
  using int_word_sint [of "uint p", where ?'a = 16] by simp

lemma display_i16_negative:
  assumes "32768 \<le> unat p"
  shows "display_i16 p = 45 # dec_digits (65536 - unat p)"
proof -
  have lt: "int (unat p) - 32768 < 65536" "0 \<le> int (unat p) - 32768"
    using unat_u16_less [of p] assms by linarith+
  have "(int (unat p) + 32768) mod 65536 = (int (unat p) - 32768 + 65536) mod 65536" by (simp add: add.commute)
  also have "\<dots> = int (unat p) - 32768"
    unfolding mod_add_self2 by (rule mod_pos_pos_trivial [OF lt(2,1)])
  finally have "sint p = int (unat p) - 65536" unfolding sint_i16 by linarith
  then have "sint p < 0" and "- sint p = int (65536 - unat p)"
    using lt unat_u16_less [of p] by linarith+
  then have "sint p < 0" and "nat (- sint p) = 65536 - unat p" by (simp_all only: nat_int)
  then show ?thesis by (simp add: display_i16_def)
qed

lemma display_i16_nonneg:
  assumes "unat p < 32768"
  shows "display_i16 p = dec_digits (unat p)"
proof -
  from assms have "(int (unat p) + 32768) mod 65536 = int (unat p) + 32768"
    by (intro mod_pos_pos_trivial) linarith+
  then have "sint p = int (unat p)" unfolding sint_i16 by linarith
  then show ?thesis by (simp add: display_i16_def)
qed

end
