(* ===== verification/Framing.thy ===== *)
theory Framing
  imports Crates
begin

text \<open>
  The contract between a \<open>Decoder\<close> and the framed reader that drives it: the reader calls
  \<open>decode\<close> on its buffer until it asks for more bytes or fails, then appends the next bytes
  read from the socket. \<open>drain\<close> and \<open>feed\<close> are that caller, over any decoder. Two
  interfaces: \<open>byte_decoder\<close> (asking for more changes nothing, an item consumes a non-empty
  prefix) and \<open>prefix_decoder\<close> (the outcome depends only on the bytes it consumed), from
  which delivery is shown independent of how the stream is cut into chunks.
\<close>

type_synonym ('s, 'i) decoder = "'s \<Rightarrow> bytes \<Rightarrow> 'i option res \<times> 's \<times> bytes"

function drain :: "('s, 'i) decoder \<Rightarrow> 's \<Rightarrow> bytes \<Rightarrow> 'i list \<times> fault option \<times> 's \<times> bytes" where
  "drain dec s b =
     (case dec s b of
        (Inl e, s', b') \<Rightarrow> ([], Some e, s', b')
      | (Inr None, s', b') \<Rightarrow> ([], None, s', b')
      | (Inr (Some i), s', b') \<Rightarrow>
          (if length b' < length b
           then (case drain dec s' b' of (xs, e, t, r) \<Rightarrow> (i # xs, e, t, r))
           else ([i], None, s', b')))"
  by pat_completeness auto
termination
  by (relation "measure (\<lambda>(dec, s, b). length b)") auto

declare drain.simps [simp del]

fun feed :: "('s, 'i) decoder \<Rightarrow> 's \<Rightarrow> bytes \<Rightarrow> bytes list \<Rightarrow>
    'i list \<times> fault option \<times> 's \<times> bytes" where
  "feed dec s b [] = ([], None, s, b)"
| "feed dec s b (c # cs) =
     (case drain dec s (b @ c) of
        (xs, Some e, s', b') \<Rightarrow> (xs, Some e, s', b')
      | (xs, None, s', b') \<Rightarrow>
          (case feed dec s' b' cs of (ys, e, t, r) \<Rightarrow> (xs @ ys, e, t, r)))"

text \<open>What the application sees of a run: the items and the error that ended it.\<close>

definition delivered :: "'i list \<times> fault option \<times> 's \<times> bytes \<Rightarrow> 'i list \<times> fault option" where
  "delivered r = (fst r, fst (snd r))"

lemma delivered_simps [simp]: "delivered (xs, e, s, b) = (xs, e)"
  by (simp add: delivered_def)

lemma drain_error: "dec s b = (Inl e, s', b') \<Longrightarrow> drain dec s b = ([], Some e, s', b')"
  by (simp add: drain.simps)

lemma drain_wait: "dec s b = (Inr None, s', b') \<Longrightarrow> drain dec s b = ([], None, s', b')"
  by (simp add: drain.simps)

lemma drain_item:
  "dec s b = (Inr (Some i), s', b') \<Longrightarrow> length b' < length b \<Longrightarrow>
   drain dec s b = (case drain dec s' b' of (xs, e, t, r) \<Rightarrow> (i # xs, e, t, r))"
  by (simp add: drain.simps [of dec s b])

lemma feed_append:
  "feed dec s b cs = (xs, None, t, r) \<Longrightarrow>
   feed dec s b (cs @ ds) = (case feed dec t r ds of (ys, e, u, q) \<Rightarrow> (xs @ ys, e, u, q))"
  by (induction cs arbitrary: s b xs) (auto split: prod.splits option.splits)

text \<open>
  The reader's loop as it is written, without the guard that makes \<open>drain\<close> a total function:
  \<open>None\<close> is a loop that never ends, on a decoder that gives items without consuming bytes.
\<close>

partial_function (option) reader_loop ::
    "('s, 'i) decoder \<Rightarrow> 's \<Rightarrow> bytes \<Rightarrow> ('i list \<times> fault option \<times> 's \<times> bytes) option" where
  "reader_loop dec s b =
     (case dec s b of (x, s', b') \<Rightarrow>
       (case x of
          Inl e \<Rightarrow> Some ([], Some e, s', b')
        | Inr y \<Rightarrow>
            (case y of
               None \<Rightarrow> Some ([], None, s', b')
             | Some i \<Rightarrow>
                 Option.bind (reader_loop dec s' b') (\<lambda>(xs, e, t, r). Some (i # xs, e, t, r)))))"

text \<open>
  \<open>ok\<close> is what the decoder needs of the world \<open>L\<close> it runs in (the laws of the crates it
  calls).
\<close>

locale byte_decoder =
  fixes ok :: "'l \<Rightarrow> bool"
    and dec :: "'l \<Rightarrow> ('s, 'i) decoder"
  assumes need_more: "ok L \<Longrightarrow> dec L s b = (Inr None, s', b') \<Longrightarrow> s' = s \<and> b' = b"
    and consumes: "ok L \<Longrightarrow> dec L s b = (Inr (Some i), s', b') \<Longrightarrow> \<exists>p. p \<noteq> [] \<and> b = p @ b'"
begin

lemma shrinks: "ok L \<Longrightarrow> dec L s b = (Inr (Some i), s', b') \<Longrightarrow> length b' < length b"
  by (drule (1) consumes) auto

lemma item_step:
  "ok L \<Longrightarrow> dec L s b = (Inr (Some i), s', b') \<Longrightarrow>
   drain (dec L) s b = (case drain (dec L) s' b' of (xs, e, t, r) \<Rightarrow> (i # xs, e, t, r))"
  using shrinks by (blast intro: drain_item)

lemma drain_cases:
  assumes "ok L"
  obtains (error) e s' b' where "dec L s b = (Inl e, s', b')" "drain (dec L) s b = ([], Some e, s', b')"
    | (wait) "dec L s b = (Inr None, s, b)" "drain (dec L) s b = ([], None, s, b)"
    | (item) i s' b' xs e t r where "dec L s b = (Inr (Some i), s', b')" "length b' < length b"
        "drain (dec L) s' b' = (xs, e, t, r)" "drain (dec L) s b = (i # xs, e, t, r)"
proof -
  obtain x s' b' where d: "dec L s b = (x, s', b')" by (cases "dec L s b") auto
  show thesis
  proof (cases x)
    case (Inl e)
    with d show ?thesis by (auto intro: error drain_error)
  next
    case (Inr y)
    show ?thesis
    proof (cases y)
      case None
      with d Inr have w: "dec L s b = (Inr None, s', b')" by simp
      from need_more [OF assms w] w show ?thesis by (auto intro!: wait drain_wait)
    next
      case (Some i)
      obtain xs e t r where "drain (dec L) s' b' = (xs, e, t, r)"
        by (cases "drain (dec L) s' b'") auto
      with d Inr Some show ?thesis
        using assms by (auto intro!: item intro: shrinks simp: item_step)
    qed
  qed
qed

text \<open>The reader stops only where the decoder asks for more, and keeps the undecoded suffix.\<close>

lemma drain_stops:
  assumes "ok L" and "drain (dec L) s b = (xs, None, t, r)"
  shows "dec L t r = (Inr None, t, r) \<and> (\<exists>p. b = p @ r) \<and> length xs + length r \<le> length b"
  using assms(2)
proof (induction "length b" arbitrary: s b xs rule: less_induct)
  case less
  show ?case
  proof (cases rule: drain_cases [OF assms(1), of s b, case_names error wait item])
    case (item i s' b' xs' e' t' r')
    with less.prems have d: "drain (dec L) s' b' = (xs', None, t, r)" and i: "xs = i # xs'" by auto
    from less.hyps [OF item(2) d] consumes [OF assms(1) item(1)] i item(2)
    show ?thesis by auto
  qed (use less.prems in auto)
qed

end

context byte_decoder
begin

text \<open>The loop ends on every buffer, with what \<open>drain\<close> gives.\<close>

lemma reader_loop_ends:
  assumes "ok L"
  shows "reader_loop (dec L) s b = Some (drain (dec L) s b)"
proof (induction "length b" arbitrary: s b rule: less_induct)
  case less
  show ?case
  proof (cases rule: drain_cases [OF assms, of s b, case_names error wait item])
    case (item i s' b' xs e t r)
    with less.hyps [OF item(2), of s'] show ?thesis by (subst reader_loop.simps) simp
  qed (subst reader_loop.simps, simp)+
qed

lemma wait_step: "dec L s b = (Inr None, s, b) \<Longrightarrow> drain (dec L) s b = ([], None, s, b)"
  by (rule drain_wait)

lemma feed_idle:
  assumes "dec L s [] = (Inr None, s, [])"
  shows "concat cs = [] \<Longrightarrow> feed (dec L) s [] cs = ([], None, s, [])"
  by (induction cs) (simp_all add: wait_step [OF assms])

text \<open>
  A frame whose strict prefixes make the decoder wait is delivered once, however it is cut.
\<close>

lemma feed_frame:
  assumes "ok L"
    and waits: "\<And>p q. frame = p @ q \<Longrightarrow> q \<noteq> [] \<Longrightarrow> dec L s p = (Inr None, s, p)"
    and full: "dec L s frame = (Inr (Some i), s', [])"
    and idle: "dec L s' [] = (Inr None, s', [])"
  shows "frame = part @ concat cs \<Longrightarrow> part \<noteq> frame \<Longrightarrow> feed (dec L) s part cs = ([i], None, s', [])"
proof (induction cs arbitrary: part)
  case Nil
  then show ?case by simp
next
  case (Cons c cs)
  show ?case
  proof (cases "part @ c = frame")
    case True
    with Cons.prems have "concat cs = []" by simp
    moreover have "drain (dec L) s frame = ([i], None, s', [])"
      using item_step [OF assms(1) full] by (simp add: wait_step [OF idle])
    ultimately show ?thesis using True by (simp add: feed_idle [OF idle])
  next
    case False
    with Cons.prems have f: "frame = (part @ c) @ concat cs" "concat cs \<noteq> []" by auto
    from Cons.IH [OF f(1) False] wait_step [OF waits [OF f]] show ?thesis by simp
  qed
qed

end

locale prefix_decoder = byte_decoder +
  assumes extend: "ok L \<Longrightarrow> dec L s b = (x, s', b') \<Longrightarrow> x \<noteq> Inr None \<Longrightarrow>
    dec L s (b @ c) = (x, s', b' @ c)"
begin

lemma drain_append_error:
  assumes "ok L" and "drain (dec L) s b = (xs, Some e, t, r)"
  shows "drain (dec L) s (b @ c) = (xs, Some e, t, r @ c)"
  using assms(2)
proof (induction "length b" arbitrary: s b xs rule: less_induct)
  case less
  show ?case
  proof (cases rule: drain_cases [OF assms(1), of s b, case_names error wait item])
    case (error e' s' b')
    with less.prems extend [OF assms(1) error(1)] show ?thesis by (simp add: drain_error)
  next
    case (item i s' b' xs' e' t' r')
    with less.prems have d: "drain (dec L) s' b' = (xs', Some e, t, r)" and i: "xs = i # xs'" by auto
    from extend [OF assms(1) item(1)] have "dec L s (b @ c) = (Inr (Some i), s', b' @ c)" by simp
    with less.hyps [OF item(2) d] i show ?thesis by (simp add: item_step [OF assms(1)])
  qed (use less.prems in auto)
qed

lemma drain_append:
  assumes "ok L" and "drain (dec L) s b = (xs, None, t, r)"
  shows "drain (dec L) s (b @ c) =
    (case drain (dec L) t (r @ c) of (ys, e, u, q) \<Rightarrow> (xs @ ys, e, u, q))"
  using assms(2)
proof (induction "length b" arbitrary: s b xs rule: less_induct)
  case less
  show ?case
  proof (cases rule: drain_cases [OF assms(1), of s b, case_names error wait item])
    case wait
    with less.prems show ?thesis by simp
  next
    case (item i s' b' xs' e' t' r')
    with less.prems have d: "drain (dec L) s' b' = (xs', None, t, r)" and i: "xs = i # xs'" by auto
    from extend [OF assms(1) item(1)] have "dec L s (b @ c) = (Inr (Some i), s', b' @ c)" by simp
    with less.hyps [OF item(2) d] i show ?thesis
      by (simp add: item_step [OF assms(1)] split: prod.splits)
  qed (use less.prems in auto)
qed

text \<open>Chunk boundaries do not matter: every chunking delivers what one read would deliver.\<close>

lemma feed_eq_drain:
  assumes "ok L" and "drain (dec L) s b = ([], None, s, b)"
  shows "delivered (feed (dec L) s b cs) = delivered (drain (dec L) s (b @ concat cs))"
  using assms(2)
proof (induction cs arbitrary: s b)
  case Nil
  then show ?case by simp
next
  case (Cons c cs)
  obtain xs e t r where d: "drain (dec L) s (b @ c) = (xs, e, t, r)"
    by (cases "drain (dec L) s (b @ c)") auto
  show ?case
  proof (cases e)
    case (Some x)
    with d drain_append_error [OF assms(1), of s "b @ c"] show ?thesis by simp
  next
    case None
    with d have d': "drain (dec L) s (b @ c) = (xs, None, t, r)" by simp
    from drain_stops [OF assms(1) d'] have "drain (dec L) t r = ([], None, t, r)"
      by (simp add: drain_wait)
    from Cons.IH [OF this] drain_append [OF assms(1) d', of "concat cs"] d' show ?thesis
      by (auto simp: delivered_def split: prod.splits)
  qed
qed

text \<open>A frame the decoder accepts whole is delivered first, whatever follows it.\<close>

lemma drain_frame:
  assumes "ok L" and "dec L s f = (Inr (Some i), s', [])"
  shows "drain (dec L) s (f @ b) = (case drain (dec L) s' b of (xs, e, t, r) \<Rightarrow> (i # xs, e, t, r))"
  using extend [OF assms(1,2), of b] by (simp add: item_step [OF assms(1)])

end

section \<open>A codec: a stream decoder and its encoder\<close>

text \<open>
  The other half of the contract: the framed writer appends the encoding of each message to
  its buffer. \<open>'r\<close> is what an encoding takes from the world (random bytes).
\<close>

fun encode_all ::
    "('r \<Rightarrow> 'i \<Rightarrow> bytes_mut \<Rightarrow> bytes_mut res) \<Rightarrow> ('r \<times> 'i) list \<Rightarrow> bytes_mut \<Rightarrow> bytes_mut res" where
  "encode_all enc [] dst = Inr dst"
| "encode_all enc ((r, i) # xs) dst = and_then (enc r i dst) (encode_all enc xs)"

locale framed_codec = prefix_decoder ok dec
  for ok :: "'l \<Rightarrow> bool" and dec :: "'l \<Rightarrow> ('s, 'i) decoder" +
  fixes enc :: "'l \<Rightarrow> 's \<Rightarrow> 'r \<Rightarrow> 'i \<Rightarrow> bytes_mut \<Rightarrow> bytes_mut res"
    and good :: "'l \<Rightarrow> 's \<Rightarrow> 'r \<Rightarrow> 'i \<Rightarrow> bool"
  assumes idle: "ok L \<Longrightarrow> dec L s [] = (Inr None, s, [])"
    and encodes: "ok L \<Longrightarrow> good L s r i \<Longrightarrow>
      \<exists>f dst'. enc L s r i dst = Inr dst' \<and> contents dst' = contents dst @ f \<and>
        dec L s f = (Inr (Some i), s, [])"
begin

lemma stream_drained:
  assumes "ok L"
  shows "\<forall>(r, i) \<in> set xs. good L s r i \<Longrightarrow>
    \<exists>fs dst'. encode_all (enc L s) xs dst = Inr dst' \<and> contents dst' = contents dst @ fs \<and>
      drain (dec L) s fs = (map snd xs, None, s, [])"
proof (induction xs arbitrary: dst)
  case Nil
  then show ?case using wait_step [OF idle [OF assms]] by auto
next
  case (Cons x xs)
  obtain r i where x: "x = (r, i)" by (cases x)
  with Cons.prems have "good L s r i" by simp
  from encodes [OF assms this, of dst] obtain f d1 where
    f: "enc L s r i dst = Inr d1" "contents d1 = contents dst @ f" "dec L s f = (Inr (Some i), s, [])"
    by blast
  from Cons.prems Cons.IH [of d1] obtain fs d2 where
    "encode_all (enc L s) xs d1 = Inr d2" "contents d2 = contents d1 @ fs"
    "drain (dec L) s fs = (map snd xs, None, s, [])" by auto
  with f show ?case
    by (intro exI [of _ "f @ fs"] exI [of _ d2]) (simp add: x drain_frame [OF assms f(3)])
qed

text \<open>
  What is written to one end comes out of the other end, in order, whatever the chunks the
  transport delivers.
\<close>

lemma stream_delivered:
  assumes "ok L" and "\<forall>(r, i) \<in> set xs. good L s r i" and "contents dst = []"
  shows "\<exists>dst'. encode_all (enc L s) xs dst = Inr dst' \<and>
    (\<forall>cs. concat cs = contents dst' \<longrightarrow> delivered (feed (dec L) s [] cs) = (map snd xs, None))"
proof -
  from stream_drained [OF assms(1,2), of dst] assms(3) obtain dst' where
    e: "encode_all (enc L s) xs dst = Inr dst'"
    and d: "drain (dec L) s (contents dst') = (map snd xs, None, s, [])" by auto
  have "drain (dec L) s [] = ([], None, s, [])" by (rule wait_step [OF idle [OF assms(1)]])
  from feed_eq_drain [OF assms(1) this] d e show ?thesis by auto
qed

end

end
