(* ===== verification/Socks_Codec.thy ===== *)
theory Socks_Codec
  imports Socks_Message Crates Framing
begin

text \<open>
  The SOCKS5 codec (\<open>just-proxy-lib/src/socks/codec.rs\<close>): the three-state request decoder
  and the response encoder. A decoder takes the buffer and returns the \<open>Result\<close> and what is
  left of the buffer; a panic leaves the buffer as it was at that point.
\<close>

section \<open>Request decoder\<close>

datatype socks5_request_codec_state = NEGOTIATION | WORKING | READY

definition socks5_request_codec_new :: socks5_request_codec_state where
  "socks5_request_codec_new = NEGOTIATION"

definition decode_data :: "'x bytes_crate_scheme \<Rightarrow> bytes \<Rightarrow> socks_request option res \<times> bytes" where
  "decode_data L src =
     (if length src = 0 then (Inr None, src)
      else (case bm_take L src of (data, src') \<Rightarrow> (Inr (Some (SReqData data)), src')))"

definition decode_methodselection ::
    "'x bytes_crate_scheme \<Rightarrow> bytes \<Rightarrow> socks_request option res \<times> bytes" where
  "decode_methodselection L src =
     (if length src < 2 then (Inr None, src)
      else (case idx src 1 of None \<Rightarrow> (Inl Panic, src) | Some n_m \<Rightarrow>
        (let len = (word_of_nat (length src - 2) :: u8) in
         if len < n_m then (Inr None, src)
         else (case bm_split_to L src 2 of None \<Rightarrow> (Inl Panic, src) | Some (first_two, src1) \<Rightarrow>
           (case do { version \<leftarrow> idx first_two 0; n_methods \<leftarrow> idx first_two 1;
                      (rest, src2) \<leftarrow> bm_split_to L src1 (unat n_methods);
                      Some (\<lparr>msq_version = version, msq_n_methods = n_methods,
                             msq_methods = rest\<rparr>, src2) } of
              None \<Rightarrow> (Inl Panic, src1)
            | Some (m, src2) \<Rightarrow> (Inr (Some (SReqNegotiation m)), src2))))))"

text \<open>The length the address type announces; an unknown type panics.\<close>

definition target_len :: "bytes \<Rightarrow> nat option" where
  "target_len src = do {
     request_type \<leftarrow> idx src 3;
     if request_type = 1 then Some 10
     else if request_type = 3 then do { domain_len \<leftarrow> idx src 4; Some (7 + unat domain_len) }
     else if request_type = 4 then Some 22
     else None }"

definition command_of :: "u8 \<Rightarrow> socks_request_command option" where
  "command_of command =
     (if command = 1 then Some CONNECT else if command = 2 then Some BIND
      else if command = 3 then Some UdpAssociate else None)"

definition address_of ::
    "'x wire_crates_scheme \<Rightarrow> bytes \<Rightarrow> u8 \<Rightarrow> (socks_request_type \<times> socks_addr \<times> i16) option" where
  "address_of L packet request_type =
     (if request_type = 1 then do {
        ipv4_slice \<leftarrow> subslice packet 4 8; ipv4_addr \<leftarrow> rd_u32 L ipv4_slice;
        port_slice \<leftarrow> subslice packet 8 10; port \<leftarrow> rd_i16 L port_slice;
        Some (IpV4, IPV4 ipv4_addr, port) }
      else if request_type = 3 then do {
        b4 \<leftarrow> idx packet 4; let domain_len = unat b4;
        domain_bytes \<leftarrow> subslice packet 5 (5 + domain_len);
        domain_string \<leftarrow> from_utf8 domain_bytes;
        port_slice \<leftarrow> subslice packet (5 + domain_len) (7 + domain_len);
        port \<leftarrow> rd_i16 L port_slice;
        Some (DomainType, DOMAIN domain_string, port) }
      else if request_type = 4 then do {
        ipv6_slice \<leftarrow> subslice packet 4 20; ipv6_addr \<leftarrow> rd_u128 L ipv6_slice;
        port_slice \<leftarrow> subslice packet 20 22; port \<leftarrow> rd_i16 L port_slice;
        Some (IpV6, IPV6 ipv6_addr, port) }
      else None)"

definition target_of :: "'x wire_crates_scheme \<Rightarrow> bytes \<Rightarrow> target_request option" where
  "target_of L packet = do {
     version \<leftarrow> idx packet 0;
     command \<leftarrow> idx packet 1;
     reserved \<leftarrow> idx packet 2;
     request_type \<leftarrow> idx packet 3;
     typed_command \<leftarrow> command_of command;
     (typed_request_type, typed_addr, port) \<leftarrow> address_of L packet request_type;
     Some \<lparr>tq_version = 5, tq_command = typed_command, tq_reserved = 0,
           tq_request_type = typed_request_type, tq_address = typed_addr, tq_port = port\<rparr> }"

definition decode_targetrequest ::
    "'x wire_crates_scheme \<Rightarrow> bytes \<Rightarrow> socks_request option res \<times> bytes" where
  "decode_targetrequest L src =
     (if length src < 5 then (Inr None, src)
      else (case target_len src of None \<Rightarrow> (Inl Panic, src) | Some len \<Rightarrow>
        if length src < len then (Inr None, src)
        else (case bm_split_to L src len of None \<Rightarrow> (Inl Panic, src) | Some (packet, src') \<Rightarrow>
          (case target_of L packet of
             None \<Rightarrow> (Inl Panic, src')
           | Some t \<Rightarrow> (Inr (Some (SReqTarget t)), src')))))"

text \<open>\<open>Decoder for Socks5RequestCodec\<close>: the state moves on when an item is decoded.\<close>

definition socks5_decode ::
    "'x wire_crates_scheme \<Rightarrow> (socks5_request_codec_state, socks_request) decoder" where
  "socks5_decode L state src =
     (case state of
        NEGOTIATION \<Rightarrow>
          (case decode_methodselection L src of (r, src') \<Rightarrow>
             (r, (case r of Inr (Some _) \<Rightarrow> WORKING | _ \<Rightarrow> NEGOTIATION), src'))
      | WORKING \<Rightarrow>
          (case decode_targetrequest L src of (r, src') \<Rightarrow>
             (r, (case r of Inr (Some _) \<Rightarrow> READY | _ \<Rightarrow> WORKING), src'))
      | READY \<Rightarrow> (case decode_data L src of (r, src') \<Rightarrow> (r, READY, src')))"

section \<open>Response encoder\<close>

definition encode_methodselection ::
    "'x bytes_crate_scheme \<Rightarrow> method_selection_response \<Rightarrow> bytes_mut \<Rightarrow> bytes_mut option" where
  "encode_methodselection L item dst =
     do { dst \<leftarrow> bm_put_u8 L (bm_reserve L dst 2) (msp_version item);
          bm_put_u8 L dst (msp_method item) }"

text \<open>The address bytes of a reply; a type that does not fit the address panics.\<close>

definition address_bytes ::
    "'x bytes_crate_scheme \<Rightarrow> socks_request_type \<Rightarrow> socks_addr \<Rightarrow>
     (bytes_mut \<times> socks_request_type) option" where
  "address_bytes L response_type address =
     (case (response_type, address) of
        (DomainType, DOMAIN domain) \<Rightarrow> do {
          let len = length domain;
          b \<leftarrow> bm_put_u8 L (bm_reserve L (bm_new L) (len + 1)) (word_of_nat len);
          b \<leftarrow> bm_put L b domain;
          Some (b, DomainType) }
      | (IpV4, IPV4 ipv4) \<Rightarrow> do {
          b \<leftarrow> bm_put L (bm_reserve L (bm_new L) 4) (ipv4_octets ipv4);
          Some (b, IpV4) }
      | (IpV6, IPV6 ipv6) \<Rightarrow> do {
          b \<leftarrow> bm_put L (bm_reserve L (bm_new L) 16) (ipv6_octets ipv6);
          Some (b, IpV6) }
      | _ \<Rightarrow> None)"

fun response_atyp :: "socks_request_type \<Rightarrow> u8" where
  "response_atyp IpV4 = 0"
| "response_atyp IpV6 = 4"
| "response_atyp DomainType = 3"

definition encode_targetresponse ::
    "'x bytes_crate_scheme \<Rightarrow> target_response \<Rightarrow> bytes_mut \<Rightarrow> bytes_mut option" where
  "encode_targetresponse L item dst = do {
     (addr, response_type) \<leftarrow> address_bytes L (tp_response_type item) (tp_address item);
     let len = 6 + length (contents addr);
     dst \<leftarrow> bm_put_u8 L (bm_reserve L dst len) 5;
     dst \<leftarrow> bm_put_u8 L dst (target_response_code (tp_response item));
     dst \<leftarrow> bm_put_u8 L dst 0;
     dst \<leftarrow> bm_put_u8 L dst (response_atyp response_type);
     dst \<leftarrow> bm_put L dst (contents addr);
     bm_put_i16_be L dst (tp_port item) }"

definition socks5_encode ::
    "'x bytes_crate_scheme \<Rightarrow> socks_response \<Rightarrow> bytes_mut \<Rightarrow> bytes_mut res" where
  "socks5_encode L item dst =
     unwrap (case item of
        SRespNegotiation i \<Rightarrow> encode_methodselection L i dst
      | SRespTarget i \<Rightarrow> encode_targetresponse L i dst
      | SRespData data \<Rightarrow> bm_put L (bm_reserve L dst (length data)) data)"

end
