(* ===== verification/Socks_Codec_Correct.thy ===== *)
theory Socks_Codec_Correct
  imports Socks_Codec Crates_Ref
begin

text \<open>
  What the SOCKS5 codec promises: the wire format of a target request as an abstract
  specification, that the decoder parses exactly that format, when it asks for more bytes,
  when it panics, and how its state moves; then the bytes the response encoder writes.
\<close>

section \<open>The wire format of requests\<close>

fun command_code :: "socks_request_command \<Rightarrow> u8" where
  "command_code CONNECT = 1"
| "command_code BIND = 2"
| "command_code UdpAssociate = 3"

fun addr_type :: "socks_addr \<Rightarrow> socks_request_type" where
  "addr_type (IPV4 _) = IpV4"
| "addr_type (DOMAIN _) = DomainType"
| "addr_type (IPV6 _) = IpV6"

fun wire_addr :: "socks_addr \<Rightarrow> bytes" where
  "wire_addr (IPV4 a) = 1 # ipv4_octets a"
| "wire_addr (DOMAIN s) = 3 # word_of_nat (length s) # s"
| "wire_addr (IPV6 a) = 4 # ipv6_octets a"

text \<open>An address that fits the format: a domain is a string of at most 255 bytes.\<close>

fun addr_fits :: "socks_addr \<Rightarrow> bool" where
  "addr_fits (DOMAIN s) \<longleftrightarrow> valid_utf8 s \<and> length s < 256"
| "addr_fits _ \<longleftrightarrow> True"

definition wire_request ::
    "u8 \<Rightarrow> socks_request_command \<Rightarrow> u8 \<Rightarrow> socks_addr \<Rightarrow> i16 \<Rightarrow> bytes" where
  "wire_request version command reserved address port =
     [version, command_code command, reserved] @ wire_addr address @ be_bytes 2 (unat port)"

definition parsed_target :: "socks_request_command \<Rightarrow> socks_addr \<Rightarrow> i16 \<Rightarrow> target_request" where
  "parsed_target command address port =
     \<lparr>tq_version = 5, tq_command = command, tq_reserved = 0,
      tq_request_type = addr_type address, tq_address = address, tq_port = port\<rparr>"

lemma command_of_code [simp]: "command_of (command_code c) = Some c"
  by (cases c) (simp_all add: command_of_def)

lemma command_of_Some: "command_of b = Some c \<Longrightarrow> b = command_code c"
  by (auto simp: command_of_def split: if_splits)

lemma unat_length_u8 [simp]: "n < 256 \<Longrightarrow> unat (word_of_nat n :: u8) = n"
  by (simp add: unat_of_nat)

lemma length_octets [simp]: "length (ipv4_octets a) = 4" "length (ipv6_octets b) = 16"
  by (simp_all add: ipv4_octets_def ipv6_octets_def)

lemma target_len_wire:
  "addr_fits a \<Longrightarrow> target_len (wire_request v c r a p @ rest) = Some (length (wire_request v c r a p))"
  by (cases a) (simp_all add: target_len_def wire_request_def)

lemma target_of_wire:
  assumes "byteorder_ok L" and "addr_fits a"
  shows "target_of L (wire_request v c r a p) = Some (parsed_target c a p)"
  using assms
  by (cases a) (simp_all add: target_of_def address_of_def wire_request_def parsed_target_def
      byteorder_okD ipv4_octets_def ipv6_octets_def Let_def)

lemma length_wire_ge: "addr_fits a \<Longrightarrow> 5 \<le> length (wire_request v c r a p)"
  by (cases a) (simp_all add: wire_request_def)

lemma target_request_parsed_aux:
  assumes "bytes_ok L" and "byteorder_ok L" and "addr_fits a"
  shows "decode_targetrequest L (wire_request v c r a p @ rest) =
         (Inr (Some (SReqTarget (parsed_target c a p))), rest)"
  using assms length_wire_ge [OF assms(3), of v c r p]
  by (simp add: decode_targetrequest_def target_len_wire target_of_wire bytes_okD)

text \<open>
  A well-formed SOCKS5 request (any version and reserved byte; an IPv4, IPv6 or domain
  address) followed by any bytes is decoded into the target it describes, consuming exactly
  its own bytes.
\<close>

theorem target_request_parsed:
  assumes "bytes_ok L" and "byteorder_ok L" and "addr_fits a"
  shows "decode_targetrequest L (wire_request v c r a p @ rest) =
         (Inr (Some (SReqTarget (parsed_target c a p))), rest)"
  using assms by (rule target_request_parsed_aux)

theorem target_request_parsed_witness:
  "decode_targetrequest ref_crates (wire_request 5 CONNECT 0 (DOMAIN (rstr ''a.org'')) 443 @ [22, 3]) =
     (Inr (Some (SReqTarget (parsed_target CONNECT (DOMAIN (rstr ''a.org'')) 443))), [22, 3])"
  by (rule target_request_parsed [OF ref_bytes_ok ref_byteorder_ok]) (simp, code_simp)

text \<open>Conversely, an address read from a packet of the announced length is that format.\<close>

lemma address_of_inv:
  assumes "byteorder_ok L"
    and "address_of L (v # c # r # t # body) t = Some (ty, a, p)"
    and "target_len (v # c # r # t # body) = Some (length (v # c # r # t # body))"
  shows "addr_fits a \<and> ty = addr_type a \<and> t # body = wire_addr a @ be_bytes 2 (unat p)"
proof -
  consider "t = 1" | "t = 3" | "t = 4"
    using assms(2) by (auto simp: address_of_def split: if_splits)
  then show ?thesis
  proof cases
    case 1
    with assms show ?thesis
      by (auto simp: address_of_def target_len_def byteorder_okD ipv4_octets_def)
  next
    case 2
    with assms(3) obtain n body' where b: "body = n # body'" "length body' = unat n + 2"
      by (cases body) (auto simp: target_len_def)
    with assms 2 show ?thesis
      by (auto simp: address_of_def target_len_def byteorder_okD bind_eq_Some_conv Let_def)
  next
    case 3
    with assms show ?thesis
      by (auto simp: address_of_def target_len_def byteorder_okD ipv6_octets_def)
  qed
qed

lemma target_of_inv:
  assumes "byteorder_ok L" and "target_of L pk = Some t" and "target_len pk = Some (length pk)"
  shows "\<exists>v c r a p. pk = wire_request v c r a p \<and> addr_fits a \<and> t = parsed_target c a p"
proof -
  from assms(2) have "4 \<le> length pk"
    by (auto simp: target_of_def bind_eq_Some_conv idx_def split: if_splits)
  then obtain v b r ty body where pk: "pk = v # b # r # ty # body"
    by (auto simp: numeral_eq_Suc Suc_le_length_iff)
  with assms(2) obtain c aty a p where c: "command_of b = Some c"
    and a: "address_of L pk ty = Some (aty, a, p)"
    and t: "t = \<lparr>tq_version = 5, tq_command = c, tq_reserved = 0, tq_request_type = aty,
                tq_address = a, tq_port = p\<rparr>"
    by (auto simp: target_of_def bind_eq_Some_conv)
  from address_of_inv [OF assms(1) a [unfolded pk] assms(3) [unfolded pk]] command_of_Some [OF c] pk t
  show ?thesis by (force simp: wire_request_def parsed_target_def)
qed

lemma target_len_take:
  "target_len src = Some n \<Longrightarrow> n \<le> length src \<Longrightarrow> target_len (take n src) = Some n"
  by (auto simp: target_len_def bind_eq_Some_conv idx_def split: if_splits)

lemma target_request_sound_aux:
  assumes "bytes_ok L" and "byteorder_ok L"
    and "decode_targetrequest L src = (Inr (Some i), rest)"
  shows "\<exists>v c r a p. addr_fits a \<and> i = SReqTarget (parsed_target c a p) \<and>
           src = wire_request v c r a p @ rest"
proof -
  from assms(1,3) obtain n t where n: "target_len src = Some n" "n \<le> length src"
    and t: "target_of L (take n src) = Some t" and i: "i = SReqTarget t" and r: "rest = drop n src"
    by (auto simp: decode_targetrequest_def bytes_okD split: if_splits option.splits)
  from n have "target_len (take n src) = Some (length (take n src))"
    by (simp add: target_len_take)
  from target_of_inv [OF assms(2) t this] i r show ?thesis
    by (metis append_take_drop_id)
qed

text \<open>
  C25: whatever the decoder accepts is a well-formed request, read completely: the bytes it
  consumed are the wire format of the target it returns.
\<close>

theorem target_request_sound:
  assumes "bytes_ok L" and "byteorder_ok L"
    and "decode_targetrequest L src = (Inr (Some i), rest)"
  shows "\<exists>v c r a p. addr_fits a \<and> i = SReqTarget (parsed_target c a p) \<and>
           src = wire_request v c r a p @ rest"
  using assms by (rule target_request_sound_aux)

theorem target_request_sound_witness:
  "\<exists>v c r a p. addr_fits a \<and>
     SReqTarget (parsed_target BIND (IPV4 0x7F000001) 80) = SReqTarget (parsed_target c a p) \<and>
     [5, 2, 0, 1, 127, 0, 0, 1, 0, 80, 9] = wire_request v c r a p @ [9]"
  by (rule target_request_sound [OF ref_bytes_ok ref_byteorder_ok])
    (simp add: decode_targetrequest_def ref_crates_def target_len_def target_of_def command_of_def
      address_of_def parsed_target_def be_nat_def)

lemma target_request_waits_aux:
  assumes "addr_fits a" and "wire_request v c r a p = part @ missing" and "missing \<noteq> []"
  shows "decode_targetrequest L part = (Inr None, part)"
proof (cases "length part < 5")
  case True
  then show ?thesis by (simp add: decode_targetrequest_def)
next
  case False
  have same: "idx part 3 = idx (part @ missing) 3" "idx part 4 = idx (part @ missing) 4"
    using False by (simp_all add: nth_append)
  then have "target_len part = target_len (wire_request v c r a p @ [])"
    unfolding assms(2) append_Nil2 by (simp only: target_len_def same)
  then have "target_len part = Some (length part + length missing)"
    using target_len_wire [OF assms(1), of v c r p "[]"] assms(2) by simp
  with assms(3) False show ?thesis by (simp add: decode_targetrequest_def)
qed

definition target_malformed :: "bytes \<Rightarrow> bool" where
  "target_malformed src \<longleftrightarrow> 5 \<le> length src \<and>
     (src ! 3 \<notin> {1, 3, 4} \<or>
      (\<exists>n. target_len src = Some n \<and> n \<le> length src \<and>
           (src ! 1 \<notin> {1, 2, 3} \<or> src ! 3 = 3 \<and> \<not> valid_utf8 (take (n - 7) (drop 5 src)))))"

lemma target_of_None:
  assumes "byteorder_ok L" and "5 \<le> length pk" and "target_len pk = Some (length pk)"
  shows "target_of L pk = None \<longleftrightarrow>
    pk ! 1 \<notin> {1, 2, 3} \<or> pk ! 3 = 3 \<and> \<not> valid_utf8 (take (length pk - 7) (drop 5 pk))"
proof -
  from assms(2) obtain v b r t n body where pk: "pk = v # b # r # t # n # body"
    by (auto simp: numeral_eq_Suc Suc_le_length_iff)
  have cmd: "command_of b = None \<longleftrightarrow> b \<notin> {1, 2, 3}" by (simp add: command_of_def)
  consider "t = 1" "length body = 5" | "t = 3" "length body = unat n + 2" | "t = 4" "length body = 17"
    using assms(3) by (auto simp: pk target_len_def split: if_splits)
  then have "address_of L pk t = None \<longleftrightarrow> t = 3 \<and> \<not> valid_utf8 (take (length pk - 7) (drop 5 pk))"
    using assms(1)
    by cases (simp_all add: pk address_of_def byteorder_okD Let_def bind_eq_None_conv)
  with cmd show ?thesis
    by (cases "command_of b") (auto simp: pk target_of_def)
qed

lemma target_request_panics:
  assumes "bytes_ok L" and "byteorder_ok L"
  shows "fst (decode_targetrequest L src) = Inl Panic \<longleftrightarrow> target_malformed src"
proof (cases "5 \<le> length src \<and> src ! 3 \<in> {1, 3, 4}")
  case False
  then show ?thesis
    by (auto simp: decode_targetrequest_def target_malformed_def target_len_def bind_eq_None_conv
        split: option.splits)
next
  case True
  then obtain n where n: "target_len src = Some n"
    by (auto simp: target_len_def)
  show ?thesis
  proof (cases "n \<le> length src")
    case False
    with True n show ?thesis by (simp add: decode_targetrequest_def target_malformed_def)
  next
    case le: True
    from True n have ge: "5 \<le> n" by (auto simp: target_len_def split: if_splits)
    then have "5 \<le> length (take n src)" "take n src ! 1 = src ! 1" "take n src ! 3 = src ! 3"
      "take (n - 7) (drop 5 (take n src)) = take (n - 7) (drop 5 src)" using le by (auto simp: drop_take)
    with True n le target_len_take [OF n le] target_of_None [OF assms(2), of "take n src"]
    show ?thesis
      by (auto simp: decode_targetrequest_def target_malformed_def bytes_okD [OF assms(1)]
          split: option.splits)
  qed
qed

text \<open>
  C26: the decoder panics exactly on an unknown address type, or once the announced bytes are
  there and the command is unknown or the domain is not UTF-8.
\<close>

theorem target_request_panics_iff:
  assumes "bytes_ok L" and "byteorder_ok L"
  shows "fst (decode_targetrequest L src) = Inl Panic \<longleftrightarrow> target_malformed src"
  using assms by (rule target_request_panics)

theorem target_request_panics_iff_witness:
  "fst (decode_targetrequest ref_crates [5, 9, 0, 1, 127, 0, 0, 1, 0, 80]) = Inl Panic \<longleftrightarrow>
   target_malformed [5, 9, 0, 1, 127, 0, 0, 1, 0, 80]"
  by (rule target_request_panics_iff [OF ref_bytes_ok ref_byteorder_ok])

section \<open>The target as the tunnel sees it\<close>

text \<open>
  A parsed target is handed on as \<open>host:port\<close>, a valid string; the port is read as a
  signed number, so that a port from 32768 up, \<open>65536 - n\<close>, is rendered as \<open>-n\<close>, which is
  no port number.
\<close>

theorem target_rendered:
  "to_addressstring (parsed_target c a p) =
     (case a of DOMAIN s \<Rightarrow> s | IPV6 i \<Rightarrow> display_ipv6 i | IPV4 i \<Rightarrow> display_ipv4 i) @ rstr '':'' @
     (if unat p < 32768 then dec_digits (unat p) else rstr ''-'' @ dec_digits (65536 - unat p))"
  by (simp add: to_addressstring_def parsed_target_def display_i16_negative display_i16_nonneg rstr_def)

end
