(* ===== verification/Socks_Session.thy ===== *)
theory Socks_Session
  imports Socks_Codec_Correct
begin

text \<open>
  The request decoder as a stream decoder: it meets the \<open>byte_decoder\<close> interface, the target
  request stage also the \<open>prefix_decoder\<close> interface, and a whole SOCKS5 session is delivered
  as one negotiation, one target request and then the data, in that order.
\<close>

section \<open>The greeting\<close>

definition greeting :: "u8 \<Rightarrow> bytes \<Rightarrow> bytes" where
  "greeting version methods = version # word_of_nat (length methods) # methods"

definition parsed_greeting :: "u8 \<Rightarrow> bytes \<Rightarrow> method_selection_request" where
  "parsed_greeting version methods =
     \<lparr>msq_version = version, msq_n_methods = word_of_nat (length methods), msq_methods = methods\<rparr>"

lemma u8_of_nat_less:
  "unat n < 256 \<Longrightarrow> (word_of_nat k :: u8) < n \<longleftrightarrow> k mod 256 < unat n"
  by (simp add: word_less_nat_alt unat_of_nat)

lemma decode_methodselection_greeting:
  assumes "bytes_ok L" and "length methods < 256"
  shows "decode_methodselection L (greeting v methods @ rest) =
    (if (length methods + length rest) mod 256 < length methods
     then (Inr None, greeting v methods @ rest)
     else (Inr (Some (SReqNegotiation (parsed_greeting v methods))), rest))"
  using assms
  by (simp add: decode_methodselection_def greeting_def parsed_greeting_def bytes_okD u8_of_nat_less
      del: of_nat_add)

lemma decode_methodselection_inv:
  assumes "bytes_ok L" and "decode_methodselection L src = (Inr (Some i), rest)"
  shows "\<exists>v ms. length ms < 256 \<and> src = greeting v ms @ rest \<and>
           i = SReqNegotiation (parsed_greeting v ms)"
proof -
  from assms(2) obtain v n body where src: "src = v # n # body"
    by (cases src; cases "tl src") (auto simp: decode_methodselection_def)
  with assms have "unat n \<le> length body" "rest = drop (unat n) body"
    "i = SReqNegotiation \<lparr>msq_version = v, msq_n_methods = n, msq_methods = take (unat n) body\<rparr>"
    by (auto simp: decode_methodselection_def bytes_okD Let_def split: if_splits)
  then show ?thesis
    by (intro exI [of _ v] exI [of _ "take (unat n) body"])
      (simp add: src greeting_def parsed_greeting_def)
qed

lemma decode_methodselection_wait:
  "decode_methodselection L src = (Inr None, src') \<Longrightarrow> src' = src"
  by (auto simp: decode_methodselection_def Let_def split: if_splits option.splits prod.splits)

lemma decode_targetrequest_wait:
  "decode_targetrequest L src = (Inr None, src') \<Longrightarrow> src' = src"
  by (auto simp: decode_targetrequest_def split: if_splits option.splits prod.splits)

lemma wire_request_not_Nil: "wire_request v c r a p \<noteq> []"
  by (simp add: wire_request_def)

interpretation sd: byte_decoder "\<lambda>L. bytes_ok L \<and> byteorder_ok L" socks5_decode
proof (unfold_locales, goal_cases)
  case (1 L s b s' b')
  then show ?case
    by (cases s) (auto simp: socks5_decode_def decode_data_def
        dest: decode_methodselection_wait decode_targetrequest_wait split: prod.splits if_splits)
next
  case (2 L s b i s' b')
  show ?case
  proof (cases s)
    case NEGOTIATION
    with 2 have "decode_methodselection L b = (Inr (Some i), b')"
      by (auto simp: socks5_decode_def split: prod.splits)
    with 2 decode_methodselection_inv [of L b i b'] show ?thesis by (auto simp: greeting_def)
  next
    case WORKING
    with 2 have "decode_targetrequest L b = (Inr (Some i), b')"
      by (auto simp: socks5_decode_def split: prod.splits)
    with 2 target_request_sound_aux [of L b i b'] show ?thesis
      using wire_request_not_Nil by blast
  next
    case READY
    with 2 show ?thesis
      by (auto simp: socks5_decode_def decode_data_def bytes_okD split: if_splits)
  qed
qed

text \<open>
  The target request stage on its own also meets the stronger interface: its outcome depends
  only on the bytes it consumed.
\<close>

definition target_stage :: "'x wire_crates_scheme \<Rightarrow> (unit, socks_request) decoder" where
  "target_stage L s src = (case decode_targetrequest L src of (r, src') \<Rightarrow> (r, s, src'))"

lemma target_len_append: "target_len src = Some n \<Longrightarrow> target_len (src @ c) = Some n"
  by (auto simp: target_len_def bind_eq_Some_conv idx_def nth_append split: if_splits)

lemma target_len_append_None:
  "5 \<le> length src \<Longrightarrow> target_len src = None \<Longrightarrow> target_len (src @ c) = None"
  by (auto simp: target_len_def nth_append split: if_splits)

lemma decode_targetrequest_extend:
  assumes "bytes_ok L" and "decode_targetrequest L src = (x, src')" and "x \<noteq> Inr None"
  shows "decode_targetrequest L (src @ c) = (x, src' @ c)"
proof -
  from assms(2,3) have len: "5 \<le> length src"
    by (auto simp: decode_targetrequest_def split: if_splits)
  show ?thesis
  proof (cases "target_len src")
    case None
    with assms len target_len_append_None [OF len None, of c] show ?thesis
      by (auto simp: decode_targetrequest_def)
  next
    case (Some n)
    with assms len target_len_append [OF Some, of c] show ?thesis
      by (auto simp: decode_targetrequest_def bytes_okD [OF assms(1)] split: if_splits option.splits)
  qed
qed

interpretation ts: prefix_decoder "\<lambda>L. bytes_ok L \<and> byteorder_ok L" target_stage
proof (unfold_locales, goal_cases)
  case (1 L s b s' b')
  then show ?case
    by (auto simp: target_stage_def dest: decode_targetrequest_wait split: prod.splits)
next
  case (2 L s b i s' b')
  then have "decode_targetrequest L b = (Inr (Some i), b')"
    by (auto simp: target_stage_def split: prod.splits)
  with 2 target_request_sound_aux [of L b i b'] wire_request_not_Nil show ?case by blast
next
  case (3 L s b x s' b' c)
  then show ?case
    using decode_targetrequest_extend [of L b x b' c]
    by (auto simp: target_stage_def split: prod.splits)
qed

section \<open>The order of a session\<close>

text \<open>The state a list of decoded items leads to; \<open>None\<close> if the items are out of order.\<close>

fun session_end ::
    "socks5_request_codec_state \<Rightarrow> socks_request list \<Rightarrow> socks5_request_codec_state option" where
  "session_end st [] = Some st"
| "session_end NEGOTIATION (SReqNegotiation _ # xs) = session_end WORKING xs"
| "session_end WORKING (SReqTarget _ # xs) = session_end READY xs"
| "session_end READY (SReqData d # xs) = (if d = [] then None else session_end READY xs)"
| "session_end _ _ = None"

lemma session_end_append:
  "session_end st (xs @ ys) = Option.bind (session_end st xs) (\<lambda>t. session_end t ys)"
  by (induction st xs rule: session_end.induct) auto

lemma socks5_decode_session:
  assumes "bytes_ok L" and "socks5_decode L st b = (Inr (Some i), st', b')"
  shows "session_end st (i # xs) = session_end st' xs"
proof (cases st)
  case NEGOTIATION
  with assms show ?thesis
    by (auto simp: socks5_decode_def dest!: decode_methodselection_inv [OF assms(1)] split: prod.splits)
next
  case WORKING
  with assms show ?thesis
    by (auto simp: socks5_decode_def decode_targetrequest_def split: prod.splits if_splits option.splits)
next
  case READY
  with assms show ?thesis
    by (auto simp: socks5_decode_def decode_data_def bytes_okD split: if_splits)
qed

lemma socks5_decode_error: "socks5_decode L st b = (Inl e, st', b') \<Longrightarrow> st' = st"
  by (cases st) (auto simp: socks5_decode_def decode_data_def split: prod.splits if_splits)

lemma drain_session:
  assumes "bytes_ok L \<and> byteorder_ok L" and "drain (socks5_decode L) st b = (xs, e, t, r)"
  shows "session_end st xs = Some t"
  using assms(2)
proof (induction "length b" arbitrary: st b xs rule: less_induct)
  case less
  show ?case
  proof (cases rule: sd.drain_cases [OF assms(1), of st b, case_names error wait item])
    case (error e' s' b')
    with less.prems socks5_decode_error [OF error(1)] show ?thesis by auto
  next
    case (item i s' b' xs' e' t' r')
    with less.prems have d: "drain (socks5_decode L) s' b' = (xs', e, t, r)" and x: "xs = i # xs'"
      by auto
    from less.hyps [OF item(2) d] x show ?thesis
      using socks5_decode_session [OF conjunct1 [OF assms(1)] item(1)] by simp
  qed (use less.prems in auto)
qed

lemma feed_session_aux:
  assumes "bytes_ok L \<and> byteorder_ok L"
  shows "feed (socks5_decode L) st b cs = (xs, e, t, r) \<Longrightarrow> session_end st xs = Some t"
proof (induction cs arbitrary: st b xs)
  case Nil
  then show ?case by simp
next
  case (Cons c cs)
  obtain ys e' u q where d: "drain (socks5_decode L) st (b @ c) = (ys, e', u, q)"
    by (cases "drain (socks5_decode L) st (b @ c)") auto
  note * = drain_session [OF assms d]
  show ?case
  proof (cases e')
    case None
    then obtain zs where "feed (socks5_decode L) u q cs = (zs, e, t, r)" and "xs = ys @ zs"
      using Cons.prems d by (auto split: prod.splits)
    with Cons.IH * show ?thesis by (simp add: session_end_append)
  next
    case Some
    with Cons.prems d * show ?thesis by simp
  qed
qed

text \<open>
  C24: however the client's bytes are cut into chunks, the decoded items come in the order of
  the protocol: at most one negotiation, then at most one target request, then non-empty data
  pieces; the state the codec ends in is the one this order leads to.
\<close>

theorem socks_session_order:
  assumes "bytes_ok L" and "byteorder_ok L"
    and "feed (socks5_decode L) socks5_request_codec_new [] cs = (xs, e, t, r)"
  shows "session_end NEGOTIATION xs = Some t"
  using feed_session_aux [of L] assms by (simp add: socks5_request_codec_new_def)

theorem socks_session_order_witness:
  "session_end NEGOTIATION [SReqNegotiation (parsed_greeting 5 [0])] = Some WORKING"
  by (rule socks_session_order [OF ref_bytes_ok ref_byteorder_ok, of "[[5, 1], [0, 5]]" _ None _ "[5]"]) code_simp

section \<open>Whole sessions\<close>

lemma ready_wait: "socks5_decode L READY [] = (Inr None, READY, [])"
  by (simp add: socks5_decode_def decode_data_def)

lemma ready_data: "bytes_ok L \<Longrightarrow> d \<noteq> [] \<Longrightarrow>
    socks5_decode L READY d = (Inr (Some (SReqData d)), READY, [])"
  by (simp add: socks5_decode_def decode_data_def bytes_okD)

lemma drain_ready: "bytes_ok L \<Longrightarrow> d \<noteq> [] \<Longrightarrow>
    drain (socks5_decode L) READY d = ([SReqData d], None, READY, [])"
  by (simp add: drain_item [of "socks5_decode L" READY d, OF ready_data] sd.wait_step [OF ready_wait])

lemma feed_ready:
  "bytes_ok L \<Longrightarrow> feed (socks5_decode L) READY [] cs =
     (map SReqData (filter (\<lambda>c. c \<noteq> []) cs), None, READY, [])"
proof (induction cs)
  case (Cons c cs)
  then show ?case
    by (cases "c = []") (simp_all add: drain_ready sd.wait_step [OF ready_wait])
qed simp

lemma negotiation_waits:
  assumes "bytes_ok L" and "length ms < 256" and "greeting v ms = part @ missing" and "missing \<noteq> []"
  shows "socks5_decode L NEGOTIATION part = (Inr None, NEGOTIATION, part)"
proof (cases part)
  case Nil
  then show ?thesis by (simp add: socks5_decode_def decode_methodselection_def)
next
  case (Cons b part')
  with assms(3) have p: "word_of_nat (length ms) # ms = part' @ missing" and b: "b = v"
    by (simp_all add: greeting_def)
  show ?thesis
  proof (cases part')
    case Nil
    with Cons show ?thesis by (simp add: socks5_decode_def decode_methodselection_def)
  next
    case (Cons n body)
    with p have n: "n = word_of_nat (length ms)" and ms: "ms = body @ missing"
      by (metis append_Cons list.inject)+
    have "length body < length ms" using ms assms(4) by (cases missing) auto
    with \<open>part = b # part'\<close> Cons n assms(2) show ?thesis
      by (simp add: socks5_decode_def decode_methodselection_def u8_of_nat_less Let_def)
  qed
qed

lemma feed_greeting:
  assumes "bytes_ok L" and "byteorder_ok L" and "length ms < 256" and "concat cs = greeting v ms"
  shows "feed (socks5_decode L) NEGOTIATION [] cs =
    ([SReqNegotiation (parsed_greeting v ms)], None, WORKING, [])"
proof (rule sd.feed_frame)
  show "socks5_decode L NEGOTIATION (greeting v ms) =
      (Inr (Some (SReqNegotiation (parsed_greeting v ms))), WORKING, [])"
    using decode_methodselection_greeting [OF assms(1,3), of v "[]"] assms(3)
    by (simp add: socks5_decode_def)
  show "\<And>p q. greeting v ms = p @ q \<Longrightarrow> q \<noteq> [] \<Longrightarrow>
      socks5_decode L NEGOTIATION p = (Inr None, NEGOTIATION, p)"
    using negotiation_waits [OF assms(1,3)] by blast
qed (use assms in \<open>simp_all add: socks5_decode_def decode_targetrequest_def greeting_def\<close>)

lemma feed_target:
  assumes "bytes_ok L" and "byteorder_ok L" and "addr_fits a" and "concat cs = wire_request v c r a p"
  shows "feed (socks5_decode L) WORKING [] cs = ([SReqTarget (parsed_target c a p)], None, READY, [])"
proof (rule sd.feed_frame)
  show "socks5_decode L WORKING (wire_request v c r a p) =
      (Inr (Some (SReqTarget (parsed_target c a p))), READY, [])"
    using target_request_parsed_aux [OF assms(1-3), of v c r p "[]"] by (simp add: socks5_decode_def)
  show "\<And>x y. wire_request v c r a p = x @ y \<Longrightarrow> y \<noteq> [] \<Longrightarrow>
      socks5_decode L WORKING x = (Inr None, WORKING, x)"
    by (simp add: socks5_decode_def target_request_waits_aux [OF assms(3)])
qed (use assms wire_request_not_Nil [of v c r a p] in \<open>simp_all add: ready_wait\<close>)

text \<open>
  C9: a complete SOCKS5 session. The client sends a greeting of up to 255 methods and waits for
  the reply, sends its request and waits, then sends data; each of the three may arrive in any
  chunks. The codec delivers the greeting, the target and the data chunks unchanged and in
  order, and keeps nothing back.
\<close>

theorem socks_session_delivered:
  assumes "bytes_ok L" and "byteorder_ok L" and "length ms < 256" and "addr_fits a"
    and "concat hello = greeting v ms" and "concat req = wire_request v' c r a p"
  shows "feed (socks5_decode L) socks5_request_codec_new [] (hello @ req @ data) =
    (SReqNegotiation (parsed_greeting v ms) # SReqTarget (parsed_target c a p) #
       map SReqData (filter (\<lambda>d. d \<noteq> []) data), None, READY, [])"
  using feed_append [OF feed_greeting [OF assms(1-3,5)], of "req @ data"]
    feed_append [OF feed_target [OF assms(1,2,4,6)], of data] feed_ready [OF assms(1), of data]
  by (simp add: socks5_request_codec_new_def)

theorem socks_session_delivered_witness:
  "feed (socks5_decode ref_crates) socks5_request_codec_new []
      ([[5], [1, 0]] @ [wire_request 5 CONNECT 0 (IPV4 0x7F000001) 80] @ [[71, 69], [84]]) =
    (SReqNegotiation (parsed_greeting 5 [0]) # SReqTarget (parsed_target CONNECT (IPV4 0x7F000001) 80) #
       map SReqData (filter (\<lambda>d. d \<noteq> []) [[71, 69], [84]]), None, READY, [])"
  by (rule socks_session_delivered [OF ref_bytes_ok ref_byteorder_ok]) (simp_all add: greeting_def)

text \<open>
  C40: the length check of the greeting is made in a \<open>u8\<close>: when a greeting and what follows it
  fill the buffer to a multiple of 256 bytes beyond its first two, a complete greeting is not
  recognised and the decoder asks for more.
\<close>

theorem greeting_length_wraps:
  assumes "bytes_ok L" and "ms \<noteq> []" and "length ms < 256" and "(length ms + length rest) mod 256 = 0"
  shows "socks5_decode L NEGOTIATION (greeting v ms @ rest) =
    (Inr None, NEGOTIATION, greeting v ms @ rest)"
  using decode_methodselection_greeting [OF assms(1,3), of v rest] assms(2,4)
  by (simp add: socks5_decode_def)

theorem greeting_length_wraps_witness:
  "socks5_decode ref_crates NEGOTIATION (greeting 5 [0, 2] @ replicate 254 9) =
    (Inr None, NEGOTIATION, greeting 5 [0, 2] @ replicate 254 9)"
  by (rule greeting_length_wraps [OF ref_bytes_ok]) simp_all

end
