(* ===== verification/Socks_Reply.thy ===== *)
theory Socks_Reply
  imports Socks_Codec_Correct
begin

text \<open>
  The response encoder: which bytes each reply is, that the space reserved is enough for them
  (a \<open>put\<close> past the capacity would panic), and when it panics.
\<close>

text \<open>The address part of a reply after its type byte.\<close>

definition reply_address :: "socks_addr \<Rightarrow> bytes" where
  "reply_address a = tl (wire_addr a)"

lemma address_bytes_ok:
  assumes "bytes_ok L"
  shows "\<exists>b. address_bytes L (addr_type a) a = Some (b, addr_type a) \<and> contents b = reply_address a"
proof (cases a)
  case (IPV4 x)
  with reserve_room [OF assms, of "bm_new L" 4] show ?thesis
    by (simp add: address_bytes_def reply_address_def bytes_okD [OF assms])
next
  case (IPV6 x)
  with reserve_room [OF assms, of "bm_new L" 16] show ?thesis
    by (simp add: address_bytes_def reply_address_def bytes_okD [OF assms])
next
  case (DOMAIN s)
  with reserve_room [OF assms, of "bm_new L" "length s + 1"] show ?thesis
    by (simp add: address_bytes_def reply_address_def bytes_okD [OF assms] Let_def)
qed

lemma address_bytes_mismatch: "ty \<noteq> addr_type a \<Longrightarrow> address_bytes L ty a = None"
  by (cases ty; cases a) (simp_all add: address_bytes_def)

lemma encode_targetresponse_ok:
  assumes "bytes_ok L" and "tp_response_type t = addr_type (tp_address t)"
  shows "\<exists>dst'. encode_targetresponse L t dst = Some dst' \<and>
    contents dst' = contents dst @ [5, target_response_code (tp_response t), 0,
      response_atyp (tp_response_type t)] @ reply_address (tp_address t) @ be_bytes 2 (unat (tp_port t))"
proof -
  obtain b where b: "address_bytes L (tp_response_type t) (tp_address t) = Some (b, tp_response_type t)"
    and c: "contents b = reply_address (tp_address t)"
    using address_bytes_ok [OF assms(1), of "tp_address t"] assms(2) by auto
  from reserve_room [OF assms(1), of dst "6 + length (contents b)"] show ?thesis
    by (simp add: encode_targetresponse_def b c bytes_okD [OF assms(1)])
qed

text \<open>
  Encoding a reply appends version 5, the reply code, a zero, the address type, the address
  and the port, and never runs out of the space it reserved; it panics exactly when the
  declared type is not the address's.
\<close>

theorem reply_encoded:
  assumes "bytes_ok L"
  shows "if tp_response_type t = addr_type (tp_address t)
    then \<exists>dst'. socks5_encode L (SRespTarget t) dst = Inr dst' \<and>
           contents dst' = contents dst @ [5, target_response_code (tp_response t), 0,
             response_atyp (tp_response_type t)] @ reply_address (tp_address t) @
             be_bytes 2 (unat (tp_port t))
    else socks5_encode L (SRespTarget t) dst = Inl Panic"
  using encode_targetresponse_ok [OF assms, of t dst] address_bytes_mismatch [of "tp_response_type t" "tp_address t" L]
  by (auto simp: socks5_encode_def encode_targetresponse_def)

theorem reply_encoded_witness:
  "if DomainType = addr_type (DOMAIN (rstr ''123''))
   then \<exists>dst'. socks5_encode ref_crates (SRespTarget \<lparr>tp_version = 5, tp_response = TRSucceeded,
            tp_reserved = 0, tp_response_type = DomainType, tp_address = DOMAIN (rstr ''123''), tp_port = 0\<rparr>)
          \<lparr>contents = [], capacity = 0\<rparr> = Inr dst' \<and>
        contents dst' = [] @ [5, target_response_code TRSucceeded, 0, response_atyp DomainType] @
          reply_address (DOMAIN (rstr ''123'')) @ be_bytes 2 (unat (0 :: i16))
   else socks5_encode ref_crates (SRespTarget \<lparr>tp_version = 5, tp_response = TRSucceeded,
            tp_reserved = 0, tp_response_type = DomainType, tp_address = DOMAIN (rstr ''123''), tp_port = 0\<rparr>)
          \<lparr>contents = [], capacity = 0\<rparr> = Inl Panic"
  using reply_encoded [OF ref_bytes_ok, of "\<lparr>tp_version = 5, tp_response = TRSucceeded,
            tp_reserved = 0, tp_response_type = DomainType, tp_address = DOMAIN (rstr ''123''), tp_port = 0\<rparr>"
       "\<lparr>contents = [], capacity = 0\<rparr>"] by simp

lemma target_len_reply:
  "target_len ([5, code, 0, response_atyp (addr_type a)] @ reply_address a @ port) = None \<longleftrightarrow>
   (\<exists>x. a = IPV4 x)"
  by (cases a) (simp_all add: target_len_def reply_address_def)

text \<open>
  A reply with an IPv4 address is written with address type 0, not the type 1 of RFC 1928
  that the same codec reads in requests: its own address parser recognises the address type of
  domain and IPv6 replies and of no IPv4 reply.
\<close>

theorem reply_ipv4_type_unreadable:
  assumes "bytes_ok L" and "tp_response_type t = addr_type (tp_address t)" and "contents dst = []"
    and "socks5_encode L (SRespTarget t) dst = Inr dst'"
  shows "target_len (contents dst') = None \<longleftrightarrow> (\<exists>a. tp_address t = IPV4 a)"
proof -
  from encode_targetresponse_ok [OF assms(1,2), of dst] assms(3,4)
  have "contents dst' = [5, target_response_code (tp_response t), 0,
      response_atyp (addr_type (tp_address t))] @ reply_address (tp_address t) @
      be_bytes 2 (unat (tp_port t))"
    by (auto simp: socks5_encode_def assms(2))
  then show ?thesis using target_len_reply by simp
qed

theorem reply_ipv4_type_unreadable_witness:
  "target_len [5, 0, 0, 0, 127, 0, 0, 1, 0, 80] = None \<longleftrightarrow> (\<exists>a. IPV4 0x7F000001 = IPV4 a)"
  using reply_ipv4_type_unreadable [OF ref_bytes_ok, of "\<lparr>tp_version = 5, tp_response = TRSucceeded,
      tp_reserved = 0, tp_response_type = IpV4, tp_address = IPV4 0x7F000001, tp_port = 80\<rparr>"
      "\<lparr>contents = [], capacity = 0\<rparr>"
      "\<lparr>contents = [5, 0, 0, 0, 127, 0, 0, 1, 0, 80], capacity = 10\<rparr>"]
  by (simp add: socks5_encode_def encode_targetresponse_def address_bytes_def ref_crates_def
      append_within_def ipv4_octets_def be_bytes_eval)

end
