(* ===== verification/Proxy_Message.thy ===== *)
theory Proxy_Message
  imports Rust_Std Crates Framing
begin

text \<open>
  The messages of the tunnel between client and server (\<open>just-proxy-lib/src/message.rs\<close>):
  requests and responses, their constructors, which fill in the length and type of the payload,
  and the codec that passes raw bytes through.
\<close>

datatype connector_response = CRSucceeded | CRFailed | CRData bytes | CRAbort

datatype proxy_transfer_type = TTData | TTRequestAddr | TTResponse | TTHeartbeat

fun transfer_type_byte :: "proxy_transfer_type \<Rightarrow> u8" where
  "transfer_type_byte TTData = 0"
| "transfer_type_byte TTRequestAddr = 1"
| "transfer_type_byte TTResponse = 2"
| "transfer_type_byte TTHeartbeat = 3"

datatype proxy_response_type = RTSucceeded | RTConnectionRefused | RTTimeout | RTAbort

fun response_type_byte :: "proxy_response_type \<Rightarrow> u8" where
  "response_type_byte RTSucceeded = 0"
| "response_type_byte RTConnectionRefused = 1"
| "response_type_byte RTTimeout = 2"
| "response_type_byte RTAbort = 3"

datatype proxy_transfer =
    PTData bytes
  | PTRequestAddr rstring
  | PTResponse proxy_response_type
  | PTHeartbeat u32

record proxy_request =
  prq_uuid :: u16
  prq_transfer_len :: nat
  prq_transfer_type :: proxy_transfer_type
  prq_request :: proxy_transfer

record proxy_response =
  prs_uuid :: u16
  prs_transfer_len :: nat
  prs_transfer_type :: proxy_transfer_type
  prs_response :: proxy_transfer

fun transfer_header :: "proxy_transfer \<Rightarrow> nat \<times> proxy_transfer_type" where
  "transfer_header (PTResponse _) = (1, TTResponse)"
| "transfer_header (PTRequestAddr a) = (length a, TTRequestAddr)"
| "transfer_header (PTData a) = (length a, TTData)"
| "transfer_header (PTHeartbeat _) = (4, TTHeartbeat)"

definition proxy_request_new :: "u16 \<Rightarrow> proxy_transfer \<Rightarrow> proxy_request" where
  "proxy_request_new uuid request =
     (case transfer_header request of (len, t_type) \<Rightarrow>
        \<lparr>prq_uuid = uuid, prq_transfer_len = len, prq_transfer_type = t_type,
         prq_request = request\<rparr>)"

definition proxy_response_new :: "u16 \<Rightarrow> proxy_transfer \<Rightarrow> proxy_response" where
  "proxy_response_new uuid response =
     (case transfer_header response of (len, t_type) \<Rightarrow>
        \<lparr>prs_uuid = uuid, prs_transfer_len = len, prs_transfer_type = t_type,
         prs_response = response\<rparr>)"

text \<open>\<open>BytesCodec\<close>: all bytes read so far are one item.\<close>

definition bytes_codec_decode :: "'x bytes_crate_scheme \<Rightarrow> (unit, bytes) decoder" where
  "bytes_codec_decode L self src =
     (if length src = 0 then (Inr None, self, src)
      else (case bm_take L src of (all, src') \<Rightarrow> (Inr (Some all), self, src')))"

interpretation bc: byte_decoder bytes_ok bytes_codec_decode
  by unfold_locales (auto simp: bytes_codec_decode_def bytes_okD split: if_splits)

text \<open>
  The two array conversions beside the codecs, kept for the layout of the header; \<open>None\<close> is their
  panic. The first wants exactly 16 bytes, the second at least 2.
\<close>

definition bytesmut_to_u8_16 :: "bytes \<Rightarrow> bytes option" where
  "bytesmut_to_u8_16 src = (if length src \<noteq> 16 then None else Some (map (\<lambda>i. src ! i) [0..<16]))"

definition u8_to_u8_2 :: "bytes \<Rightarrow> bytes option" where
  "u8_to_u8_2 src = (if length src < 2 then None else Some (map (\<lambda>i. src ! i) [0..<2]))"

lemma array_conversions:
  "bytesmut_to_u8_16 src = (if length src = 16 then Some src else None)"
  "u8_to_u8_2 src = (if 2 \<le> length src then Some (take 2 src) else None)"
  by (auto simp: bytesmut_to_u8_16_def u8_to_u8_2_def list_eq_iff_nth_eq)

text \<open>The payload of a message in wire bytes, and what the Rust types guarantee of it.\<close>

fun payload_bytes :: "proxy_transfer \<Rightarrow> bytes" where
  "payload_bytes (PTData d) = d"
| "payload_bytes (PTRequestAddr a) = a"
| "payload_bytes (PTResponse r) = [response_type_byte r]"
| "payload_bytes (PTHeartbeat i) = be_bytes 4 (unat i)"

fun transfer_wf :: "proxy_transfer \<Rightarrow> bool" where
  "transfer_wf (PTRequestAddr a) = valid_utf8 a"
| "transfer_wf _ = True"

lemma transfer_header_eq: "transfer_header t = (length (payload_bytes t), snd (transfer_header t))"
  by (cases t) simp_all

lemma fst_transfer_header [simp]: "fst (transfer_header t) = length (payload_bytes t)"
  by (cases t) simp_all

lemma proxy_request_new_simps [simp]:
  "prq_uuid (proxy_request_new u t) = u"
  "prq_transfer_len (proxy_request_new u t) = length (payload_bytes t)"
  "prq_transfer_type (proxy_request_new u t) = snd (transfer_header t)"
  "prq_request (proxy_request_new u t) = t"
  by (cases t; simp add: proxy_request_new_def)+

lemma proxy_response_new_simps [simp]:
  "prs_uuid (proxy_response_new u t) = u"
  "prs_transfer_len (proxy_response_new u t) = length (payload_bytes t)"
  "prs_transfer_type (proxy_response_new u t) = snd (transfer_header t)"
  "prs_response (proxy_response_new u t) = t"
  by (cases t; simp add: proxy_response_new_def)+

end
