(* ===== verification/Crypto_Opt.thy ===== *)
theory Crypto_Opt
  imports Rust_Std Crates
begin

text \<open>
  The options of the library (\<open>just-proxy-lib/src/opt.rs\<close>): resolving the algorithm names
  of a crypto configuration, and overriding the defaults of the QUIC library with the values a
  configuration sets.
\<close>

section \<open>Crypto configuration\<close>

record crypto_config =
  cc_key :: rstring
  cc_salt :: rstring
  cc_crypto_method :: rstring
  cc_digest_method :: rstring
  cc_digest_iteration :: u32

text \<open>The resolved configuration, \<open>_CryptoConfig\<close> in the source.\<close>

record resolved_crypto =
  rc_key :: bytes
  rc_salt :: bytes
  rc_crypto_method :: aead_algorithm
  rc_digest_method :: digest_algorithm
  rc_digest_iteration :: u32

datatype convert_error = UnsupportedCryptoMethod | UnsupportedDigestMethod

definition crypto_method_of :: "rstring \<Rightarrow> aead_algorithm option" where
  "crypto_method_of s =
     (if s = rstr ''aes-256-gcm'' then Some AES_256_GCM
      else if s = rstr ''aes-128-gcm'' then Some AES_128_GCM
      else if s = rstr ''chacha20_poly1305'' then Some CHACHA20_POLY1305
      else None)"

definition digest_method_of :: "rstring \<Rightarrow> digest_algorithm option" where
  "digest_method_of s =
     (if s = rstr ''sha1'' then Some SHA1
      else if s = rstr ''sha256'' then Some SHA256
      else if s = rstr ''sha384'' then Some SHA384
      else if s = rstr ''sha512'' then Some SHA512
      else if s = rstr ''sha512_256'' then Some SHA512_256
      else None)"

text \<open>\<open>NonZeroU32::new\<close> gives nothing for zero, and its \<open>unwrap\<close> panics.\<close>

definition convert :: "crypto_config \<Rightarrow> (convert_error + resolved_crypto) res" where
  "convert self =
     (case crypto_method_of (cc_crypto_method self) of
        None \<Rightarrow> Inr (Inl UnsupportedCryptoMethod)
      | Some crypto_method \<Rightarrow>
          (case digest_method_of (cc_digest_method self) of
             None \<Rightarrow> Inr (Inl UnsupportedDigestMethod)
           | Some digest_method \<Rightarrow>
               (if cc_digest_iteration self = 0 then Inl Panic
                else Inr (Inr \<lparr>rc_key = cc_key self, rc_salt = cc_salt self,
                               rc_crypto_method = crypto_method,
                               rc_digest_method = digest_method,
                               rc_digest_iteration = cc_digest_iteration self\<rparr>))))"

section \<open>QUIC configuration\<close>

record quic_config =
  qc_stream_window_bidi :: "u64 option"
  qc_idle_timeout :: "u64 option"
  qc_stream_receive_window :: "u64 option"
  qc_receive_window :: "u64 option"
  qc_max_tlps :: "u32 option"
  qc_packet_threshold :: "u32 option"
  qc_time_threshold :: "u16 option"
  qc_delayed_ack_timeout :: "u64 option"
  qc_initial_rtt :: "u64 option"
  qc_max_datagram_size :: "u64 option"
  qc_initial_window :: "u64 option"
  qc_minimum_window :: "u64 option"
  qc_loss_reduction_factor :: "u16 option"
  qc_presistent_cognestion_threshold :: "u32 option"
  qc_local_cid_len :: "nat option"

text \<open>
  The fields of the QUIC library's configuration that the program sets; the library's other
  fields are the extension of the record.
\<close>

record quinn_config =
  qn_stream_window_bidi :: u64
  qn_idle_timeout :: u64
  qn_stream_receive_window :: u64
  qn_receive_window :: u64
  qn_max_tlps :: u32
  qn_packet_threshold :: u32
  qn_time_threshold :: u16
  qn_delayed_ack_timeout :: u64
  qn_initial_rtt :: u64
  qn_max_datagram_size :: u64
  qn_initial_window :: u64
  qn_minimum_window :: u64
  qn_loss_reduction_factor :: u16
  qn_persistent_congestion_threshold :: u32
  qn_local_cid_len :: nat

text \<open>\<open>if let Some(x) = value { set(config, x) }\<close>\<close>

definition if_some :: "'a option \<Rightarrow> ('a \<Rightarrow> 'c \<Rightarrow> 'c) \<Rightarrow> 'c \<Rightarrow> 'c" where
  "if_some value setter config = (case value of None \<Rightarrow> config | Some x \<Rightarrow> setter x config)"

text \<open>\<open>config_default\<close> is the library's \<open>Config::default()\<close>.\<close>

definition to_quinn_config ::
    "'x quinn_config_scheme \<Rightarrow> quic_config \<Rightarrow> 'x quinn_config_scheme" where
  "to_quinn_config config_default self =
     (let config = config_default;
          config = if_some (qc_stream_window_bidi self) (\<lambda>x c. c\<lparr>qn_stream_window_bidi := x\<rparr>) config;
          config = if_some (qc_idle_timeout self) (\<lambda>x c. c\<lparr>qn_idle_timeout := x\<rparr>) config;
          config = if_some (qc_stream_receive_window self) (\<lambda>x c. c\<lparr>qn_stream_receive_window := x\<rparr>) config;
          config = if_some (qc_receive_window self) (\<lambda>x c. c\<lparr>qn_receive_window := x\<rparr>) config;
          config = if_some (qc_max_tlps self) (\<lambda>x c. c\<lparr>qn_max_tlps := x\<rparr>) config;
          config = if_some (qc_packet_threshold self) (\<lambda>x c. c\<lparr>qn_packet_threshold := x\<rparr>) config;
          config = if_some (qc_time_threshold self) (\<lambda>x c. c\<lparr>qn_time_threshold := x\<rparr>) config;
          config = if_some (qc_delayed_ack_timeout self) (\<lambda>x c. c\<lparr>qn_delayed_ack_timeout := x\<rparr>) config;
          config = if_some (qc_initial_rtt self) (\<lambda>x c. c\<lparr>qn_initial_rtt := x\<rparr>) config;
          config = if_some (qc_max_datagram_size self) (\<lambda>x c. c\<lparr>qn_max_datagram_size := x\<rparr>) config;
          config = if_some (qc_initial_window self) (\<lambda>x c. c\<lparr>qn_initial_window := x\<rparr>) config;
          config = if_some (qc_minimum_window self) (\<lambda>x c. c\<lparr>qn_minimum_window := x\<rparr>) config;
          config = if_some (qc_loss_reduction_factor self) (\<lambda>x c. c\<lparr>qn_loss_reduction_factor := x\<rparr>) config;
          config = if_some (qc_presistent_cognestion_threshold self)
                     (\<lambda>x c. c\<lparr>qn_persistent_congestion_threshold := x\<rparr>) config;
          config = if_some (qc_local_cid_len self) (\<lambda>x c. c\<lparr>qn_local_cid_len := x\<rparr>) config
      in config)"

end
