(* ===== verification/Proxy_Codec.thy ===== *)
theory Proxy_Codec
  imports Proxy_Message Crypto_Opt
begin

text \<open>
  The encrypted framing of the tunnel (\<open>just-proxy-lib/src/message.rs\<close>). A frame is a sealed
  header (identifier, four random bytes, payload length, payload type; 11 bytes and a tag) and
  a sealed payload whose associated data is the sealed header. The request and the response
  codec of the source have the same fields and the same code but for the names of the message;
  the shared code is \<open>decode_frame\<close> and \<open>encode_frame\<close> here, and each codec wraps it in its
  own message type.
\<close>

record ('ok, 'sk) proxy_codec =
  pc_crypto_algorithm :: aead_algorithm
  pc_opening_key :: 'ok
  pc_sealing_key :: 'sk
  pc_nonce_bytes :: bytes
  pc_tag_len :: nat

text \<open>
  \<open>ProxyRequestCodec::new\<close> and \<open>ProxyResponseCodec::new\<close>: a 32-byte key is derived from the
  configuration for every algorithm; a key the algorithm refuses panics.
\<close>

definition proxy_codec_new ::
    "('ok, 'sk, 'x) crates_scheme \<Rightarrow> resolved_crypto \<Rightarrow> ('ok, 'sk) proxy_codec res" where
  "proxy_codec_new L config =
     (let key_bytes = pbkdf2_derive L (rc_digest_method config) (rc_digest_iteration config)
                        (rc_salt config) (rc_key config) (replicate 32 0) in
      unwrap (do {
        opening_key \<leftarrow> opening_key_new L (rc_crypto_method config) key_bytes;
        sealing_key \<leftarrow> sealing_key_new L (rc_crypto_method config) key_bytes;
        Some \<lparr>pc_crypto_algorithm = rc_crypto_method config, pc_opening_key = opening_key,
              pc_sealing_key = sealing_key, pc_nonce_bytes = replicate 12 1,
              pc_tag_len = alg_tag_len L (rc_crypto_method config)\<rparr> }))"

section \<open>Decoding\<close>

text \<open>The length, type byte and identifier of an opened header; \<open>None\<close> is a panic.\<close>

definition header_fields :: "'x wire_crates_scheme \<Rightarrow> bytes \<Rightarrow> (u32 \<times> u8 \<times> u16) option" where
  "header_fields L parse1_dec_bytes = do {
     b6 \<leftarrow> idx parse1_dec_bytes 6;
     b7 \<leftarrow> idx parse1_dec_bytes 7;
     b8 \<leftarrow> idx parse1_dec_bytes 8;
     b9 \<leftarrow> idx parse1_dec_bytes 9;
     transfer_len \<leftarrow> rd_u32 L [b6, b7, b8, b9];
     type_byte \<leftarrow> idx parse1_dec_bytes 10;
     uuid \<leftarrow> rd_u16 L parse1_dec_bytes;
     Some (transfer_len, type_byte, uuid) }"

definition response_type_of :: "u8 \<Rightarrow> proxy_response_type option" where
  "response_type_of b =
     (if b = 0 then Some RTSucceeded else if b = 1 then Some RTConnectionRefused
      else if b = 2 then Some RTTimeout else if b = 3 then Some RTAbort else None)"

text \<open>
  The payload: \<open>parse2_dec_bytes\<close> is the plaintext slice, \<open>packet\<close> the buffer it was opened
  in; \<open>None\<close> is a panic.
\<close>

definition transfer_of ::
    "'x wire_crates_scheme \<Rightarrow> nat \<Rightarrow> u8 \<Rightarrow> bytes \<Rightarrow> bytes \<Rightarrow>
     (proxy_transfer_type \<times> proxy_transfer) option" where
  "transfer_of L tag_len type_byte parse2_dec_bytes packet =
     (if type_byte = 0 then
        (if length packet < tag_len then None
         else Some (TTData, PTData (bm_truncate L packet (length packet - tag_len))))
      else if type_byte = 1 then do {
        s \<leftarrow> from_utf8 parse2_dec_bytes;
        Some (TTRequestAddr, PTRequestAddr s) }
      else if type_byte = 2 then
        (if length parse2_dec_bytes \<noteq> 1 then None
         else do { b \<leftarrow> idx parse2_dec_bytes 0; r \<leftarrow> response_type_of b;
                   Some (TTResponse, PTResponse r) })
      else if type_byte = 3 then do {
        index \<leftarrow> rd_u32 L parse2_dec_bytes;
        Some (TTHeartbeat, PTHeartbeat index) }
      else None)"

text \<open>The second half of \<open>decode\<close>: the payload is there; split it off and open it.\<close>

definition decode_payload ::
    "('ok, 'sk, 'x) crates_scheme \<Rightarrow> ('ok, 'sk) proxy_codec \<Rightarrow> u32 \<Rightarrow> u8 \<Rightarrow> u16 \<Rightarrow> bytes \<Rightarrow>
     (u16 \<times> nat \<times> proxy_transfer_type \<times> proxy_transfer) option res \<times> bytes" where
  "decode_payload L self transfer_len type_byte uuid src =
     (case bm_split_to L src (6 + 4 + 1 + pc_tag_len self + unat transfer_len + pc_tag_len self) of
        None \<Rightarrow> (Inl Panic, src)
      | Some (packet, src') \<Rightarrow>
          (case do { (parse1_bytes, packet) \<leftarrow> bm_split_to L packet (11 + pc_tag_len self);
                     nonce_2 \<leftarrow> nonce_try_assume L (pc_nonce_bytes self);
                     Some (parse1_bytes, packet, nonce_2) } of
             None \<Rightarrow> (Inl Panic, src')
           | Some (parse1_bytes, packet, nonce_2) \<Rightarrow>
               (case open_in_place L (pc_opening_key self) nonce_2 parse1_bytes 0 packet of
                  (None, _) \<Rightarrow> (Inl (Err DecError), src')
                | (Some parse2_dec_bytes, packet') \<Rightarrow>
                    (case transfer_of L (pc_tag_len self) type_byte parse2_dec_bytes packet' of
                       None \<Rightarrow> (Inl Panic, src')
                     | Some (transfer_type, transfer) \<Rightarrow>
                         (Inr (Some (uuid, unat transfer_len, transfer_type, transfer)), src')))))"

definition decode_frame ::
    "('ok, 'sk, 'x) crates_scheme \<Rightarrow> ('ok, 'sk) proxy_codec \<Rightarrow> bytes \<Rightarrow>
     (u16 \<times> nat \<times> proxy_transfer_type \<times> proxy_transfer) option res \<times> bytes" where
  "decode_frame L self src =
     (if length src < 6 + 4 + 1 + pc_tag_len self then (Inr None, src)
      else (case nonce_try_assume L (pc_nonce_bytes self) of
        None \<Rightarrow> (Inl Panic, src)
      | Some nonce_1 \<Rightarrow>
          (case open_in_place L (pc_opening_key self) nonce_1 [] 0 (take (11 + pc_tag_len self) src) of
             (None, _) \<Rightarrow> (Inl (Err DecError), src)
           | (Some parse1_dec_bytes, _) \<Rightarrow>
               (case header_fields L parse1_dec_bytes of
                  None \<Rightarrow> (Inl Panic, src)
                | Some (transfer_len, type_byte, uuid) \<Rightarrow>
                    (if length src < 6 + 4 + 1 + pc_tag_len self + unat transfer_len + pc_tag_len self
                     then (Inr None, src)
                     else decode_payload L self transfer_len type_byte uuid src)))))"

definition proxy_request_decode ::
    "('ok, 'sk, 'x) crates_scheme \<Rightarrow> (('ok, 'sk) proxy_codec, proxy_request) decoder" where
  "proxy_request_decode L self src =
     (case decode_frame L self src of
        (Inl e, src') \<Rightarrow> (Inl e, self, src')
      | (Inr None, src') \<Rightarrow> (Inr None, self, src')
      | (Inr (Some (uuid, transfer_len, transfer_type, request)), src') \<Rightarrow>
          (Inr (Some \<lparr>prq_uuid = uuid, prq_transfer_len = transfer_len,
                      prq_transfer_type = transfer_type, prq_request = request\<rparr>), self, src'))"

definition proxy_response_decode ::
    "('ok, 'sk, 'x) crates_scheme \<Rightarrow> (('ok, 'sk) proxy_codec, proxy_response) decoder" where
  "proxy_response_decode L self src =
     (case decode_frame L self src of
        (Inl e, src') \<Rightarrow> (Inl e, self, src')
      | (Inr None, src') \<Rightarrow> (Inr None, self, src')
      | (Inr (Some (uuid, transfer_len, transfer_type, request)), src') \<Rightarrow>
          (Inr (Some \<lparr>prs_uuid = uuid, prs_transfer_len = transfer_len,
                      prs_transfer_type = transfer_type, prs_response = request\<rparr>), self, src'))"

section \<open>Encoding\<close>

text \<open>\<open>for _ in 0..n { buf.put(0u8) }\<close>\<close>

primrec put_zeros :: "'x bytes_crate_scheme \<Rightarrow> nat \<Rightarrow> bytes_mut \<Rightarrow> bytes_mut option" where
  "put_zeros L 0 buf = Some buf"
| "put_zeros L (Suc n) buf = do { buf \<leftarrow> bm_put_u8 L buf 0; put_zeros L n buf }"

text \<open>The plaintext header followed by room for its tag.\<close>

definition header_buf ::
    "'x wire_crates_scheme \<Rightarrow> nat \<Rightarrow> bytes \<Rightarrow> u16 \<Rightarrow> nat \<Rightarrow> proxy_transfer_type \<Rightarrow> bytes_mut option" where
  "header_buf L tag_len random uuid transfer_len transfer_type = do {
     len_buf \<leftarrow> wr_u32 L [0, 0, 0, 0] (word_of_nat transfer_len);
     buf \<leftarrow> bm_put_u16_be L (bm_reserve L (bm_new L) (6 + 4 + 1 + tag_len)) uuid;
     buf \<leftarrow> bm_put L buf random;
     buf \<leftarrow> bm_put L buf len_buf;
     buf \<leftarrow> bm_put_u8 L buf (transfer_type_byte transfer_type);
     put_zeros L tag_len buf }"

definition put_transfer ::
    "'x bytes_crate_scheme \<Rightarrow> proxy_transfer \<Rightarrow> bytes_mut \<Rightarrow> bytes_mut option" where
  "put_transfer L transfer buf =
     (case transfer of
        PTData data \<Rightarrow> bm_put L buf data
      | PTRequestAddr addr \<Rightarrow> bm_put L buf addr
      | PTResponse response \<Rightarrow> bm_put_u8 L buf (response_type_byte response)
      | PTHeartbeat index \<Rightarrow> bm_put_u32_be L buf index)"

text \<open>The plaintext payload followed by room for its tag.\<close>

definition payload_buf ::
    "'x bytes_crate_scheme \<Rightarrow> nat \<Rightarrow> nat \<Rightarrow> proxy_transfer \<Rightarrow> bytes_mut option" where
  "payload_buf L tag_len transfer_len transfer = do {
     buf \<leftarrow> put_transfer L transfer (bm_reserve L (bm_new L) (transfer_len + tag_len));
     put_zeros L tag_len buf }"

text \<open>Sealing a whole buffer in place; a refusal by the cipher is the encoder's error.\<close>

definition seal_buf ::
    "('ok, 'sk, 'x) crates_scheme \<Rightarrow> ('ok, 'sk) proxy_codec \<Rightarrow> bytes \<Rightarrow> bytes_mut \<Rightarrow> bytes res" where
  "seal_buf L self aad buf =
     (case nonce_try_assume L (pc_nonce_bytes self) of
        None \<Rightarrow> Inl Panic
      | Some nonce \<Rightarrow>
          (case seal_in_place L (pc_sealing_key self) nonce aad (contents buf) (pc_tag_len self) of
             (None, _) \<Rightarrow> Inl (Err EncError)
           | (Some _, sealed) \<Rightarrow> Inr sealed))"

text \<open>
  \<open>rng\<close> is the system's random generator: \<open>rng n\<close> are the \<open>n\<close> bytes it fills a buffer with,
  or its failure, on which the \<open>unwrap\<close> panics.
\<close>

definition encode_frame ::
    "('ok, 'sk, 'x) crates_scheme \<Rightarrow> ('ok, 'sk) proxy_codec \<Rightarrow> (nat \<Rightarrow> bytes option) \<Rightarrow>
     u16 \<Rightarrow> nat \<Rightarrow> proxy_transfer_type \<Rightarrow> proxy_transfer \<Rightarrow> bytes_mut \<Rightarrow> bytes_mut res" where
  "encode_frame L self rng uuid transfer_len transfer_type transfer dst =
     and_then (unwrap (rng 4)) (\<lambda>random.
     and_then (unwrap (header_buf L (pc_tag_len self) random uuid transfer_len transfer_type)) (\<lambda>parse1_buf.
     and_then (seal_buf L self [] parse1_buf) (\<lambda>parse1_place.
     and_then (unwrap (payload_buf L (pc_tag_len self) transfer_len transfer)) (\<lambda>parse2_buf.
     and_then (seal_buf L self parse1_place parse2_buf) (\<lambda>parse2_place.
     unwrap (do {
       dst \<leftarrow> bm_put L (bm_reserve L dst (6 + 4 + 1 + pc_tag_len self + transfer_len + pc_tag_len self))
                parse1_place;
       bm_put L dst parse2_place }))))))"

definition proxy_request_encode ::
    "('ok, 'sk, 'x) crates_scheme \<Rightarrow> ('ok, 'sk) proxy_codec \<Rightarrow> (nat \<Rightarrow> bytes option) \<Rightarrow>
     proxy_request \<Rightarrow> bytes_mut \<Rightarrow> bytes_mut res" where
  "proxy_request_encode L self rng item dst =
     encode_frame L self rng (prq_uuid item) (prq_transfer_len item) (prq_transfer_type item)
       (prq_request item) dst"

definition proxy_response_encode ::
    "('ok, 'sk, 'x) crates_scheme \<Rightarrow> ('ok, 'sk) proxy_codec \<Rightarrow> (nat \<Rightarrow> bytes option) \<Rightarrow>
     proxy_response \<Rightarrow> bytes_mut \<Rightarrow> bytes_mut res" where
  "proxy_response_encode L self rng item dst =
     encode_frame L self rng (prs_uuid item) (prs_transfer_len item) (prs_transfer_type item)
       (prs_response item) dst"

end
