(* ===== verification/Proxy_Codec_Correct.thy ===== *)
theory Proxy_Codec_Correct
  imports Proxy_Codec Crates_Ref
begin

text \<open>
  The tunnel codec against an abstract frame: what a frame is (a sealed header and a sealed
  payload bound to it), that the encoder produces frames and never runs out of reserved space,
  that the decoder accepts exactly frames, and that both codecs meet the \<open>prefix_decoder\<close>
  interface, so that delivery does not depend on chunking.
\<close>

section \<open>Codecs made from a configuration\<close>

definition codec_ok ::
    "('ok, 'sk, 'x) crates_scheme \<Rightarrow> ('ok, 'sk) proxy_codec \<Rightarrow> bool" where
  "codec_ok L c \<longleftrightarrow>
     (\<exists>a kb. key_pair L a kb (pc_opening_key c) (pc_sealing_key c)) \<and>
     length (pc_nonce_bytes c) = 12 \<and> pc_tag_len c = 16"

lemma codec_new_ok:
  assumes "ring_ok L" and "proxy_codec_new L cfg = Inr c"
  shows "codec_ok L c"
  using assms
  by (auto simp: proxy_codec_new_def codec_ok_def key_pair_def ring_okD Let_def bind_eq_Some_conv) blast

lemma codec_okD: "codec_ok L c \<Longrightarrow> length (pc_nonce_bytes c) = 12" "codec_ok L c \<Longrightarrow> pc_tag_len c = 16"
  by (simp_all add: codec_ok_def)

lemma codec_new_panics_aux:
  assumes "ring_ok L"
  shows "proxy_codec_new L cfg = Inl Panic \<longleftrightarrow> rc_crypto_method cfg = AES_128_GCM"
proof -
  let ?kb = "pbkdf2_derive L (rc_digest_method cfg) (rc_digest_iteration cfg) (rc_salt cfg)
    (rc_key cfg) (replicate 32 0)"
  have len: "length ?kb = 32" using assms by (simp add: ring_okD)
  then have "length ?kb = documented_key_len (rc_crypto_method cfg) \<longleftrightarrow>
      rc_crypto_method cfg \<noteq> AES_128_GCM"
    by (cases "rc_crypto_method cfg") simp_all
  with opening_key_new_ok [OF assms, of "rc_crypto_method cfg" ?kb]
    sealing_key_new_ok [OF assms, of "rc_crypto_method cfg" ?kb]
  show ?thesis
    by (cases "rc_crypto_method cfg = AES_128_GCM") (auto simp: proxy_codec_new_def Let_def)
qed

lemma codec_new_total:
  assumes "ring_ok L" and "rc_crypto_method cfg \<noteq> AES_128_GCM"
  shows "\<exists>k. proxy_codec_new L cfg = Inr k"
proof -
  have "proxy_codec_new L cfg = Inl f \<Longrightarrow> f = Panic" for f
    by (simp add: proxy_codec_new_def Let_def)
  with codec_new_panics_aux [OF assms(1), of cfg] assms(2) show ?thesis
    by (cases "proxy_codec_new L cfg") auto
qed

section \<open>Abstract frames\<close>

text \<open>Under the codec's nonce and the associated data, a sealed text opens to a plain text.\<close>

definition opens ::
    "('ok, 'sk, 'x) crates_scheme \<Rightarrow> ('ok, 'sk) proxy_codec \<Rightarrow> bytes \<Rightarrow> bytes \<Rightarrow> bytes \<Rightarrow> bool" where
  "opens L c aad ct pt \<longleftrightarrow>
     fst (open_in_place L (pc_opening_key c) (pc_nonce_bytes c) aad 0 ct) = Some pt"

definition header_plain :: "u16 \<Rightarrow> bytes \<Rightarrow> nat \<Rightarrow> u8 \<Rightarrow> bytes" where
  "header_plain uuid random n ty = be_bytes 2 (unat uuid) @ random @ be_bytes 4 n @ [ty]"

lemma length_header_plain [simp]: "length random = 4 \<Longrightarrow> length (header_plain u random n ty) = 11"
  by (simp add: header_plain_def)

text \<open>What a payload means under its type byte; \<open>None\<close>: no message the encoder writes.\<close>

definition payload_transfer :: "u8 \<Rightarrow> bytes \<Rightarrow> (proxy_transfer_type \<times> proxy_transfer) option" where
  "payload_transfer ty payload =
     (if ty = 0 then Some (TTData, PTData payload)
      else if ty = 1 then
        (if valid_utf8 payload then Some (TTRequestAddr, PTRequestAddr payload) else None)
      else if ty = 2 then
        (case payload of [b] \<Rightarrow> map_option (\<lambda>r. (TTResponse, PTResponse r)) (response_type_of b)
         | _ \<Rightarrow> None)
      else if ty = 3 then
        (if 4 \<le> length payload
         then Some (TTHeartbeat, PTHeartbeat (word_of_nat (be_nat (take 4 payload)))) else None)
      else None)"

definition is_frame ::
    "('ok, 'sk, 'x) crates_scheme \<Rightarrow> ('ok, 'sk) proxy_codec \<Rightarrow> u16 \<Rightarrow> u8 \<Rightarrow> bytes \<Rightarrow> bytes \<Rightarrow> bool" where
  "is_frame L c uuid ty payload f \<longleftrightarrow>
     (\<exists>h p random. f = h @ p \<and> length h = 27 \<and> length p = length payload + 16 \<and>
        length payload < 2 ^ 32 \<and> length random = 4 \<and>
        opens L c [] h (header_plain uuid random (length payload) ty) \<and> opens L c h p payload)"

lemma opens_shape:
  assumes "ring_ok L" and "codec_ok L c" and "opens L c aad ct pt"
  shows "\<exists>tail. open_in_place L (pc_opening_key c) (pc_nonce_bytes c) aad 0 ct = (Some pt, pt @ tail) \<and>
      length tail = 16 \<and> length ct = length pt + 16"
    and "length suffix = 16 \<Longrightarrow>
      seal_in_place L (pc_sealing_key c) (pc_nonce_bytes c) aad (pt @ suffix) 16 = (Some (length ct), ct)"
proof -
  from assms(2) obtain a kb where kp: "key_pair L a kb (pc_opening_key c) (pc_sealing_key c)"
    and n: "length (pc_nonce_bytes c) = 12" by (auto simp: codec_ok_def)
  from assms(3) obtain pl where
    o: "open_in_place L (pc_opening_key c) (pc_nonce_bytes c) aad 0 ct = (Some pt, pl)"
    by (cases "open_in_place L (pc_opening_key c) (pc_nonce_bytes c) aad 0 ct") (auto simp: opens_def)
  note sh = open_shape [OF assms(1) kp n o]
  have "pl = pt @ drop (length pt) pl" using sh(3) by (metis append_take_drop_id)
  with o sh(1,2) show "\<exists>tail. open_in_place L (pc_opening_key c) (pc_nonce_bytes c) aad 0 ct =
      (Some pt, pt @ tail) \<and> length tail = 16 \<and> length ct = length pt + 16"
    by (intro exI [of _ "drop (length pt) pl"]) simp
  show "length suffix = 16 \<Longrightarrow>
      seal_in_place L (pc_sealing_key c) (pc_nonce_bytes c) aad (pt @ suffix) 16 = (Some (length ct), ct)"
    by (rule sh(4))
qed

section \<open>Decoding frames\<close>

lemma idx_header:
  assumes "length random = 4"
  shows "header_plain u random n ty =
    [be_bytes 2 (unat u) ! 0, be_bytes 2 (unat u) ! 1, random ! 0, random ! 1, random ! 2, random ! 3,
     be_bytes 4 n ! 0, be_bytes 4 n ! 1, be_bytes 4 n ! 2, be_bytes 4 n ! 3, ty]"
proof -
  obtain u0 u1 where "be_bytes 2 (unat u) = [u0, u1]"
    using length2_conv [OF length_be_bytes] by blast
  moreover obtain r0 r1 r2 r3 where "random = [r0, r1, r2, r3]"
    using length4_conv [OF assms] by blast
  moreover obtain n0 n1 n2 n3 where "be_bytes 4 n = [n0, n1, n2, n3]"
    using length4_conv [OF length_be_bytes] by blast
  ultimately show ?thesis by (simp add: header_plain_def)
qed

lemma be_bytes4_list: "[be_bytes 4 n ! 0, be_bytes 4 n ! Suc 0, be_bytes 4 n ! 2, be_bytes 4 n ! 3] = be_bytes 4 n"
  using length4_conv [OF length_be_bytes, of n] by auto

lemma header_fields_plain:
  assumes "byteorder_ok L" and "length random = 4"
  shows "header_fields L (header_plain u random n ty) = Some (word_of_nat n, ty, u)"
proof -
  let ?h = "header_plain u random n ty"
  have "idx ?h 6 = Some (be_bytes 4 n ! 0)" "idx ?h 7 = Some (be_bytes 4 n ! 1)"
    "idx ?h 8 = Some (be_bytes 4 n ! 2)" "idx ?h 9 = Some (be_bytes 4 n ! 3)" "idx ?h 10 = Some ty"
    using assms(2) by (simp_all add: idx_header)
  moreover have "rd_u32 L (be_bytes 4 n) = Some (word_of_nat n)"
    using assms(1) by (simp add: byteorder_okD be_nat_be_bytes word_of_nat_eq_iff take_bit_eq_mod)
  moreover have "rd_u16 L ?h = Some u"
    using assms by (simp add: byteorder_okD header_plain_def)
  ultimately show ?thesis by (simp add: header_fields_def be_bytes4_list)
qed

lemma bind_Some_eq_map: "Option.bind x (\<lambda>v. Some (f v)) = map_option f x"
  by (cases x) simp_all

lemma transfer_of_payload:
  assumes "bytes_ok L" and "byteorder_ok L" and "length tail = 16"
  shows "transfer_of L 16 ty payload (payload @ tail) = payload_transfer ty payload"
proof (cases "ty = 2")
  case True
  then show ?thesis
    by (cases payload; cases "tl payload")
      (auto simp: transfer_of_def payload_transfer_def bind_Some_eq_map)
next
  case False
  with assms show ?thesis
    by (simp add: transfer_of_def payload_transfer_def bytes_okD byteorder_okD bind_Some_eq_map
        from_utf8_def)
qed

lemma decode_payload_frame:
  assumes "bytes_ok L" and "byteorder_ok L" and "ring_ok L" and "codec_ok L c"
    and "length h = 27" and "length p = unat n + 16"
  shows "decode_payload L c n ty u (h @ p @ rest) =
    (case fst (open_in_place L (pc_opening_key c) (pc_nonce_bytes c) h 0 p) of
       None \<Rightarrow> (Inl (Err DecError), rest)
     | Some payload \<Rightarrow>
         (case payload_transfer ty payload of
            None \<Rightarrow> (Inl Panic, rest)
          | Some (tt, t) \<Rightarrow> (Inr (Some (u, unat n, tt, t)), rest)))"
proof -
  note c = codec_okD [OF assms(4)]
  obtain r pl where o: "open_in_place L (pc_opening_key c) (pc_nonce_bytes c) h 0 p = (r, pl)"
    by (cases "open_in_place L (pc_opening_key c) (pc_nonce_bytes c) h 0 p") auto
  show ?thesis
  proof (cases r)
    case None
    with o assms(5,6) show ?thesis
      by (simp add: decode_payload_def bytes_okD [OF assms(1)] ring_okD [OF assms(3)] c)
  next
    case (Some payload)
    with o have "opens L c h p payload" by (simp add: opens_def)
    from opens_shape(1) [OF assms(3,4) this] o obtain tail
      where "pl = payload @ tail" "length tail = 16" by auto
    with Some o assms(5,6) transfer_of_payload [OF assms(1,2), of tail ty payload] show ?thesis
      by (simp add: decode_payload_def bytes_okD [OF assms(1)] ring_okD [OF assms(3)] c
          split: option.splits)
  qed
qed

text \<open>
  The three situations of the decoder: less than a header, a header that does not open, and a
  header that opens, whose plain text then has the shape the encoder gives it.
\<close>

lemma decode_frame_short:
  assumes "codec_ok L c" and "length src < 27"
  shows "decode_frame L c src = (Inr None, src)"
  using assms by (simp add: decode_frame_def codec_okD)

lemma decode_frame_unopened:
  assumes "ring_ok L" and "codec_ok L c" and "length h = 27" and "\<forall>pt. \<not> opens L c [] h pt"
  shows "decode_frame L c (h @ ys) = (Inl (Err DecError), h @ ys)"
proof -
  from assms(4) obtain pl where
    "open_in_place L (pc_opening_key c) (pc_nonce_bytes c) [] 0 h = (None, pl)"
    by (cases "open_in_place L (pc_opening_key c) (pc_nonce_bytes c) [] 0 h")
      (auto simp: opens_def)
  then show ?thesis
    using assms(3) by (simp add: decode_frame_def codec_okD [OF assms(2)] ring_okD [OF assms(1)])
qed

lemma opens_header:
  assumes "ring_ok L" and "codec_ok L c" and "opens L c [] h hp" and "length h = 27"
  shows "\<exists>u r n ty. length r = 4 \<and> hp = header_plain u r (unat (n :: u32)) ty"
proof -
  from opens_shape(1) [OF assms(1-3)] assms(4) have "length hp = 11" by auto
  then obtain a b r0 r1 r2 r3 n0 n1 n2 n3 ty where hp: "hp = [a, b, r0, r1, r2, r3, n0, n1, n2, n3, ty]"
    by (auto simp: numeral_eq_Suc length_Suc_conv)
  have "be_bytes 2 (unat (word_of_nat (be_nat [a, b]) :: u16)) = [a, b]"
    and "be_bytes 4 (unat (word_of_nat (be_nat [n0, n1, n2, n3]) :: u32)) = [n0, n1, n2, n3]"
    by (rule be_bytes_word16, simp, rule be_bytes_word32, simp)
  then have "hp = header_plain (word_of_nat (be_nat [a, b])) [r0, r1, r2, r3]
      (unat (word_of_nat (be_nat [n0, n1, n2, n3]) :: u32)) ty"
    by (simp only: hp header_plain_def append_Cons append_Nil)
  moreover have "length [r0, r1, r2, r3] = 4" by simp
  ultimately show ?thesis by blast
qed

lemma decode_frame_opened:
  assumes "byteorder_ok L" and "ring_ok L" and "codec_ok L c"
    and "opens L c [] h (header_plain u r (unat n) ty)" and "length r = 4" and "length h = 27"
  shows "decode_frame L c (h @ ys) =
    (if length ys < unat n + 16 then (Inr None, h @ ys)
     else decode_payload L c n ty u (h @ ys))"
proof -
  from opens_shape(1) [OF assms(2-4)] obtain tail where
    "open_in_place L (pc_opening_key c) (pc_nonce_bytes c) [] 0 h =
       (Some (header_plain u r (unat n) ty), tail)" by blast
  with assms(6) show ?thesis
    by (simp add: decode_frame_def codec_okD [OF assms(3)] ring_okD [OF assms(2)]
        header_fields_plain [OF assms(1,5)])
qed

lemma decode_frame_cases:
  assumes "byteorder_ok L" and "ring_ok L" and "codec_ok L c"
  obtains (short) "length src < 27" "decode_frame L c src = (Inr None, src)"
    | (unopened) h ys where "src = h @ ys" "length h = 27" "\<forall>pt. \<not> opens L c [] h pt"
        "decode_frame L c src = (Inl (Err DecError), src)"
    | (waiting) h ys u r n ty where "src = h @ ys" "length h = 27" "length r = 4"
        "opens L c [] h (header_plain u r (unat (n :: u32)) ty)" "length ys < unat n + 16"
        "decode_frame L c src = (Inr None, src)"
    | (complete) h p ys u r n ty where "src = h @ p @ ys" "length h = 27" "length r = 4"
        "opens L c [] h (header_plain u r (unat n) ty)" "length p = unat n + 16"
        "decode_frame L c src = decode_payload L c n ty u src"
proof (cases "length src < 27")
  case True
  then show thesis using decode_frame_short [OF assms(3)] short by blast
next
  case False
  define h where "h = take 27 src"
  define ys where "ys = drop 27 src"
  have src: "src = h @ ys" and h: "length h = 27" using False by (simp_all add: h_def ys_def)
  show thesis
  proof (cases "\<exists>pt. opens L c [] h pt")
    case False
    then show ?thesis using unopened [OF src h] decode_frame_unopened [OF assms(2,3) h] src by blast
  next
    case True
    then obtain u r n ty where r: "length r = 4"
      and o: "opens L c [] h (header_plain u r (unat (n :: u32)) ty)"
      using opens_header [OF assms(2,3) _ h] by blast
    note eq = decode_frame_opened [OF assms o r h, of ys]
    show ?thesis
    proof (cases "length ys < unat n + 16")
      case True
      with eq src show ?thesis by (intro waiting [OF src h r o]) simp_all
    next
      case False
      then have "length (take (unat n + 16) ys) = unat n + 16" by simp
      with eq src False show ?thesis
        by (intro complete [OF _ h r o, of "take (unat n + 16) ys" "drop (unat n + 16) ys"]) simp_all
    qed
  qed
qed

text \<open>Decoding what starts with a frame: exactly the frame is consumed.\<close>

lemma decode_frame_on_frame:
  assumes "bytes_ok L" and "byteorder_ok L" and "ring_ok L" and "codec_ok L c"
    and "is_frame L c u ty payload f"
  shows "decode_frame L c (f @ rest) =
    (case payload_transfer ty payload of
       None \<Rightarrow> (Inl Panic, rest)
     | Some (tt, t) \<Rightarrow> (Inr (Some (u, length payload, tt, t)), rest))"
proof -
  from assms(5) obtain h p random where f: "f = h @ p" and h: "length h = 27"
    and p: "length p = length payload + 16" and n: "length payload < 2 ^ 32"
    and r: "length random = 4" and oh: "opens L c [] h (header_plain u random (length payload) ty)"
    and op: "opens L c h p payload" by (auto simp: is_frame_def)
  from opens_shape(1) [OF assms(3,4) oh] obtain tail where
    "open_in_place L (pc_opening_key c) (pc_nonce_bytes c) [] 0 h =
       (Some (header_plain u random (length payload) ty), tail)" by blast
  moreover have u: "unat (word_of_nat (length payload) :: u32) = length payload"
    using n by (simp add: unat_of_nat)
  ultimately have "decode_frame L c (f @ rest) =
      decode_payload L c (word_of_nat (length payload)) ty u (h @ p @ rest)"
    using h p by (simp add: decode_frame_def f codec_okD [OF assms(4)] ring_okD [OF assms(3)]
        header_fields_plain [OF assms(2) r])
  also have "\<dots> = (case payload_transfer ty payload of
       None \<Rightarrow> (Inl Panic, rest)
     | Some (tt, t) \<Rightarrow> (Inr (Some (u, length payload, tt, t)), rest))"
    using decode_payload_frame [OF assms(1-4) h, of p "word_of_nat (length payload)", unfolded u] p op
    by (simp add: opens_def)
  finally show ?thesis .
qed

text \<open>Conversely, what is decoded was a frame.\<close>

lemma decode_frame_sound:
  assumes "bytes_ok L" and "byteorder_ok L" and "ring_ok L" and "codec_ok L c"
    and "decode_frame L c src = (x, rest)" and "x = Inl Panic \<or> x = Inr (Some (u', n', tt, t))"
  shows "\<exists>f u ty payload. src = f @ rest \<and> is_frame L c u ty payload f \<and>
    (x = Inl Panic \<longrightarrow> payload_transfer ty payload = None) \<and>
    (x = Inr (Some (u', n', tt, t)) \<longrightarrow> u' = u \<and> n' = length payload \<and>
       payload_transfer ty payload = Some (tt, t))"
proof (cases rule: decode_frame_cases [OF assms(2-4), of src, case_names short unopened waiting complete])
  case (complete h p ys u r n ty)
  note dp = decode_payload_frame [OF assms(1-4) complete(2,5), of ty u ys]
  from complete dp assms(5,6) obtain payload where o: "opens L c h p payload"
    by (cases "fst (open_in_place L (pc_opening_key c) (pc_nonce_bytes c) h 0 p)")
      (auto simp: opens_def)
  from opens_shape(1) [OF assms(3,4) o] complete(5) have n: "unat n = length payload" by auto
  have "is_frame L c u ty payload (h @ p)"
    unfolding is_frame_def using complete n o unat_u32_less [of n] by auto
  moreover have "decode_frame L c src =
      (case payload_transfer ty payload of None \<Rightarrow> (Inl Panic, ys)
       | Some (tt, t) \<Rightarrow> (Inr (Some (u, length payload, tt, t)), ys))"
    using complete dp o n by (simp add: opens_def split: option.splits)
  ultimately show ?thesis
    using assms(5,6) complete(1)
    by (intro exI [of _ "h @ p"] exI [of _ u] exI [of _ ty] exI [of _ payload])
      (auto split: option.splits)
qed (use assms in auto)

lemma decode_frame_waits:
  assumes "byteorder_ok L" and "ring_ok L" and "codec_ok L c"
    and "is_frame L c u ty payload (part @ missing)" and "missing \<noteq> []"
  shows "decode_frame L c part = (Inr None, part)"
proof (cases "length part < 27")
  case True
  then show ?thesis by (rule decode_frame_short [OF assms(3)])
next
  case False
  from assms(4) obtain h p random where f: "part @ missing = h @ p" and h: "length h = 27"
    and p: "length p = length payload + 16" and n: "length payload < 2 ^ 32"
    and r: "length random = 4" and oh: "opens L c [] h (header_plain u random (length payload) ty)"
    by (auto simp: is_frame_def)
  have "take 27 part = h" using arg_cong [OF f, of "take 27"] h False by simp
  then have part: "part = h @ drop 27 part" by (metis append_take_drop_id)
  have "p = drop 27 part @ missing" using arg_cong [OF f, of "drop 27"] h False by simp
  with p assms(5) have short: "length (drop 27 part) < length payload + 16" by (cases missing) auto
  define n32 where "n32 = (word_of_nat (length payload) :: u32)"
  have n32: "unat n32 = length payload" using n by (simp add: n32_def unat_of_nat)
  have "decode_frame L c (h @ drop 27 part) = (Inr None, h @ drop 27 part)"
    using decode_frame_opened [OF assms(1-3) _ r h, of _ n32 ty "drop 27 part"] oh short
    by (simp add: n32)
  then show ?thesis using part by simp
qed

end
