(* ===== verification/Proxy_Roundtrip.thy ===== *)
theory Proxy_Roundtrip
  imports Proxy_Codec_Correct
begin

text \<open>
  The encoder of the tunnel and what crosses it: every message built by the constructors is
  encoded, within the space reserved, into a frame; what the encoder writes the decoder of the
  other end delivers, one message or a stream of them, in any chunks; and the decoder delivers
  nothing else.
\<close>

section \<open>Encoding produces frames\<close>

lemma put_zeros_ok:
  assumes "bytes_ok L"
  shows "length (contents b) + n \<le> capacity b \<Longrightarrow>
    put_zeros L n b = Some (b\<lparr>contents := contents b @ replicate n 0\<rparr>)"
  by (induction n arbitrary: b) (simp_all add: bytes_okD [OF assms])

lemma header_buf_ok:
  assumes "bytes_ok L" and "byteorder_ok L" and "length random = 4"
  shows "\<exists>b. header_buf L 16 random u n tt = Some b \<and>
    contents b = header_plain u random (unat (word_of_nat n :: u32)) (transfer_type_byte tt) @ replicate 16 0"
proof -
  have "0 + 27 \<le> capacity (bm_reserve L (bm_new L) 27)"
    using reserve_room [OF assms(1), of "bm_new L" 27] by (simp add: bytes_okD [OF assms(1)])
  then show ?thesis
    using assms(3)
    by (simp add: header_buf_def bytes_okD [OF assms(1)] byteorder_okD [OF assms(2)]
        put_zeros_ok [OF assms(1)] header_plain_def)
qed

lemma put_transfer_ok:
  assumes "bytes_ok L" and "length (contents b) + length (payload_bytes t) \<le> capacity b"
  shows "put_transfer L t b = Some (b\<lparr>contents := contents b @ payload_bytes t\<rparr>)"
  using assms by (cases t) (simp_all add: put_transfer_def bytes_okD)

lemma payload_buf_ok:
  assumes "bytes_ok L"
  shows "\<exists>b. payload_buf L 16 (length (payload_bytes t)) t = Some b \<and>
    contents b = payload_bytes t @ replicate 16 0"
proof -
  have "0 + (length (payload_bytes t) + 16) \<le>
      capacity (bm_reserve L (bm_new L) (length (payload_bytes t) + 16))"
    using reserve_room [OF assms, of "bm_new L" "length (payload_bytes t) + 16"]
    by (simp add: bytes_okD [OF assms])
  then show ?thesis
    by (simp add: payload_buf_def bytes_okD [OF assms] put_transfer_ok [OF assms]
        put_zeros_ok [OF assms])
qed

lemma seal_buf_ok:
  assumes "ring_ok L" and "codec_ok L c" and "contents b = pt @ replicate 16 0" and "length pt < 2 ^ 32"
  shows "\<exists>ct. seal_buf L c aad b = Inr ct \<and> opens L c aad ct pt \<and> length ct = length pt + 16"
proof -
  from assms(2) obtain a kb where kp: "key_pair L a kb (pc_opening_key c) (pc_sealing_key c)"
    and n: "length (pc_nonce_bytes c) = 12" by (auto simp: codec_ok_def)
  have len: "16 \<le> length (contents b)" "length (contents b) \<le> 2 ^ 33" using assms(3,4) by simp_all
  from seal_then_open [OF assms(1) kp n len, of aad] obtain ct pl where
    s: "seal_in_place L (pc_sealing_key c) (pc_nonce_bytes c) aad (contents b) 16 =
      (Some (length (contents b)), ct)" and l: "length ct = length (contents b)"
    and o: "open_in_place L (pc_opening_key c) (pc_nonce_bytes c) aad 0 ct =
      (Some (take (length (contents b) - 16) (contents b)), pl)" by blast
  have "seal_buf L c aad b = Inr ct"
    using s by (simp add: seal_buf_def ring_okD [OF assms(1)] codec_okD [OF assms(2)])
  moreover have "opens L c aad ct pt" using o assms(3) by (simp add: opens_def)
  ultimately show ?thesis using l assms(3) by auto
qed

text \<open>A payload type and its byte agree with the payload's meaning.\<close>

lemma payload_transfer_bytes:
  assumes "transfer_wf t"
  shows "payload_transfer (transfer_type_byte (snd (transfer_header t))) (payload_bytes t) =
    Some (snd (transfer_header t), t)"
proof (cases t)
  case (PTResponse r)
  then show ?thesis by (cases r) (simp_all add: payload_transfer_def response_type_of_def)
qed (use assms in \<open>simp_all add: payload_transfer_def\<close>)

lemma encode_frame_parts:
  assumes "bytes_ok L" and "byteorder_ok L" and "codec_ok L c"
    and "rng 4 = Some random" and "length random = 4" and "length (payload_bytes t) < 2 ^ 32"
    and "\<And>b. contents b = header_plain u random (length (payload_bytes t)) (transfer_type_byte tt) @
           replicate 16 0 \<Longrightarrow> seal_buf L c [] b = Inr h"
    and "\<And>b. contents b = payload_bytes t @ replicate 16 0 \<Longrightarrow> seal_buf L c h b = Inr p"
    and "length h = 27" and "length p = length (payload_bytes t) + 16"
  shows "\<exists>dst'. encode_frame L c rng u (length (payload_bytes t)) tt t dst = Inr dst' \<and>
    contents dst' = contents dst @ h @ p"
proof -
  let ?n = "length (payload_bytes t)"
  have u: "unat (word_of_nat ?n :: u32) = ?n" using assms(6) by (simp add: unat_of_nat)
  obtain b1 where b1: "header_buf L 16 random u ?n tt = Some b1"
    "contents b1 = header_plain u random ?n (transfer_type_byte tt) @ replicate 16 0"
    using header_buf_ok [OF assms(1,2,5), of u ?n tt] u by auto
  obtain b2 where b2: "payload_buf L 16 ?n t = Some b2" "contents b2 = payload_bytes t @ replicate 16 0"
    using payload_buf_ok [OF assms(1)] by blast
  let ?R = "bm_reserve L dst (?n + 43)"
  have room: "length (contents dst) + (?n + 43) \<le> capacity ?R"
    using reserve_room [OF assms(1), of dst "?n + 43"] .
  have "6 + 4 + 1 + (16 :: nat) + ?n + 16 = ?n + 43" by simp
  with room have "encode_frame L c rng u ?n tt t dst = Inr (?R\<lparr>contents := contents dst @ h @ p\<rparr>)"
    using assms(9,10)
    by (simp add: encode_frame_def codec_okD [OF assms(3)] assms(4) b1(1) b2(1)
        assms(7) [OF b1(2)] assms(8) [OF b2(2)] bytes_okD [OF assms(1)] add.commute)
  then show ?thesis by simp
qed

lemma encode_frame_ok:
  assumes "bytes_ok L" and "byteorder_ok L" and "ring_ok L" and "codec_ok L c"
    and "rng 4 = Some random" and "length random = 4" and "length (payload_bytes t) < 2 ^ 32"
  shows "\<exists>f dst'. encode_frame L c rng u (length (payload_bytes t)) tt t dst = Inr dst' \<and>
    contents dst' = contents dst @ f \<and> is_frame L c u (transfer_type_byte tt) (payload_bytes t) f \<and>
    length f = length (payload_bytes t) + 43"
proof -
  let ?n = "length (payload_bytes t)"
  let ?b = "\<lambda>xs. \<lparr>contents = xs, capacity = 0\<rparr>"
  have cong: "seal_buf L c aad b = seal_buf L c aad (?b xs)" if "contents b = xs" for aad b xs
    using that by (simp only: seal_buf_def bytes_mut.simps)
  obtain h where h: "seal_buf L c [] (?b (header_plain u random ?n (transfer_type_byte tt) @ replicate 16 0)) = Inr h"
    "length h = 27" "opens L c [] h (header_plain u random ?n (transfer_type_byte tt))"
    using seal_buf_ok [OF assms(3,4), of "?b _" "header_plain u random ?n (transfer_type_byte tt)" "[]"]
      assms(6) by auto
  obtain p where p: "seal_buf L c h (?b (payload_bytes t @ replicate 16 0)) = Inr p"
    "length p = ?n + 16" "opens L c h p (payload_bytes t)"
    using seal_buf_ok [OF assms(3,4), of "?b _" "payload_bytes t" h] assms(7) by auto
  have "\<exists>dst'. encode_frame L c rng u ?n tt t dst = Inr dst' \<and> contents dst' = contents dst @ h @ p"
    by (rule encode_frame_parts [where rng = rng and random = random and tt = tt,
          OF assms(1,2,4-7) _ _ h(2) p(2)])
      (simp_all only: cong h(1) p(1))
  moreover have "is_frame L c u (transfer_type_byte tt) (payload_bytes t) (h @ p)"
    unfolding is_frame_def using h(2,3) p(2,3) assms(6,7) by blast
  ultimately show ?thesis using h(2) p(2) by (intro exI [of _ "h @ p"]) simp
qed

text \<open>A frame is what the encoder writes for its content, with the header's random bytes.\<close>

lemma frame_is_encoding:
  assumes "bytes_ok L" and "byteorder_ok L" and "ring_ok L" and "codec_ok L c"
    and "is_frame L c u (transfer_type_byte tt) (payload_bytes t) f"
  shows "\<exists>random. length random = 4 \<and> (\<forall>dst. \<exists>dst'.
    encode_frame L c (\<lambda>n. Some random) u (length (payload_bytes t)) tt t dst = Inr dst' \<and>
    contents dst' = contents dst @ f)"
proof -
  from assms(5) obtain h p random where f: "f = h @ p" and h: "length h = 27"
    and p: "length p = length (payload_bytes t) + 16" and n: "length (payload_bytes t) < 2 ^ 32"
    and r: "length random = 4" and op: "opens L c h p (payload_bytes t)"
    and oh: "opens L c [] h (header_plain u random (length (payload_bytes t)) (transfer_type_byte tt))"
    by (auto simp: is_frame_def)
  have seal: "seal_buf L c aad b = Inr ct"
    if "opens L c aad ct pt" and "contents b = pt @ replicate 16 0" for aad b ct pt
    using opens_shape(2) [OF assms(3,4) that(1), of "replicate 16 0"] that(2)
    by (simp add: seal_buf_def ring_okD [OF assms(3)] codec_okD [OF assms(4)])
  have "\<exists>dst'. encode_frame L c (\<lambda>n. Some random) u (length (payload_bytes t)) tt t dst = Inr dst' \<and>
      contents dst' = contents dst @ h @ p" for dst
    by (rule encode_frame_parts [OF assms(1,2,4) refl r n seal [OF oh] seal [OF op] h p])
  then show ?thesis using r f by blast
qed

lemma payload_transfer_inv:
  assumes "payload_transfer ty payload = Some (tt, t)" and "length payload = length (payload_bytes t)"
  shows "ty = transfer_type_byte tt \<and> payload = payload_bytes t \<and> tt = snd (transfer_header t) \<and> transfer_wf t"
proof -
  have "b = response_type_byte r" if "response_type_of b = Some r" for b r
    using that by (auto simp: response_type_of_def split: if_splits)
  with assms show ?thesis
    by (auto simp: payload_transfer_def split: if_splits list.splits)
qed

section \<open>The codecs as stream decoders\<close>

lemma decode_payload_append:
  assumes "bytes_ok L" and "decode_payload L c n ty u src = (x, src')"
    and "6 + 4 + 1 + pc_tag_len c + unat n + pc_tag_len c \<le> length src"
  shows "decode_payload L c n ty u (src @ z) = (x, src' @ z)"
    and "src' = drop (6 + 4 + 1 + pc_tag_len c + unat n + pc_tag_len c) src"
  using assms(2,3)
  by (auto simp: decode_payload_def bytes_okD [OF assms(1)] split: option.splits prod.splits)

lemma decode_frame_extend:
  assumes "bytes_ok L" and "decode_frame L c src = (x, src')" and "x \<noteq> Inr None"
  shows "decode_frame L c (src @ z) = (x, src' @ z)"
proof -
  have len: "\<not> length src < 11 + pc_tag_len c"
    using assms(2,3) by (auto simp: decode_frame_def)
  then have "take (11 + pc_tag_len c) (src @ z) = take (11 + pc_tag_len c) src" by simp
  with len assms(2,3) show ?thesis
    using decode_payload_append(1) [OF assms(1), where src = src]
    by (auto simp: decode_frame_def split: option.splits prod.splits if_splits)
qed

lemma decode_frame_wait: "decode_frame L c src = (Inr None, src') \<Longrightarrow> src' = src"
  by (auto simp: decode_frame_def decode_payload_def split: option.splits prod.splits if_splits)

lemma decode_frame_consumes:
  assumes "bytes_ok L" and "decode_frame L c src = (Inr (Some i), src')"
  shows "\<exists>p. p \<noteq> [] \<and> src = p @ src'"
proof -
  from assms obtain n ty u where
    len: "6 + 4 + 1 + pc_tag_len c + unat (n :: u32) + pc_tag_len c \<le> length src" (is "?k \<le> _")
    and d: "decode_payload L c n ty u src = (Inr (Some i), src')"
    by (auto simp: decode_frame_def not_less split: option.splits prod.splits if_splits)
  from decode_payload_append(2) [OF assms(1) d len] have "src = take ?k src @ src'" by simp
  moreover from len have "take ?k src \<noteq> []" by auto
  ultimately show ?thesis by blast
qed

lemma proxy_request_decode_iff:
  "proxy_request_decode L c src = (Inl e, c', src') \<longleftrightarrow> c' = c \<and> decode_frame L c src = (Inl e, src')"
  "proxy_request_decode L c src = (Inr None, c', src') \<longleftrightarrow>
     c' = c \<and> decode_frame L c src = (Inr None, src')"
  "proxy_request_decode L c src = (Inr (Some i), c', src') \<longleftrightarrow> c' = c \<and> decode_frame L c src =
     (Inr (Some (prq_uuid i, prq_transfer_len i, prq_transfer_type i, prq_request i)), src')"
  by (cases i; auto simp: proxy_request_decode_def split: prod.splits sum.splits option.splits)+

lemma proxy_response_decode_iff:
  "proxy_response_decode L c src = (Inl e, c', src') \<longleftrightarrow> c' = c \<and> decode_frame L c src = (Inl e, src')"
  "proxy_response_decode L c src = (Inr None, c', src') \<longleftrightarrow>
     c' = c \<and> decode_frame L c src = (Inr None, src')"
  "proxy_response_decode L c src = (Inr (Some i), c', src') \<longleftrightarrow> c' = c \<and> decode_frame L c src =
     (Inr (Some (prs_uuid i, prs_transfer_len i, prs_transfer_type i, prs_response i)), src')"
  by (cases i; auto simp: proxy_response_decode_def split: prod.splits sum.splits option.splits)+

interpretation rqd: prefix_decoder bytes_ok proxy_request_decode
proof (unfold_locales, goal_cases)
  case 1
  then show ?case by (auto simp: proxy_request_decode_iff dest: decode_frame_wait)
next
  case 2
  then show ?case by (auto simp: proxy_request_decode_iff dest: decode_frame_consumes)
next
  case (3 L s b x s' b' c)
  show ?case
  proof (cases x)
    case (Inl e)
    with 3 show ?thesis by (auto simp: proxy_request_decode_iff dest: decode_frame_extend)
  next
    case (Inr y)
    with 3 obtain i where "x = Inr (Some i)" by (cases y) auto
    with 3 show ?thesis by (auto simp: proxy_request_decode_iff dest: decode_frame_extend)
  qed
qed

interpretation rsd: prefix_decoder bytes_ok proxy_response_decode
proof (unfold_locales, goal_cases)
  case 1
  then show ?case by (auto simp: proxy_response_decode_iff dest: decode_frame_wait)
next
  case 2
  then show ?case by (auto simp: proxy_response_decode_iff dest: decode_frame_consumes)
next
  case (3 L s b x s' b' c)
  show ?case
  proof (cases x)
    case (Inl e)
    with 3 show ?thesis by (auto simp: proxy_response_decode_iff dest: decode_frame_extend)
  next
    case (Inr y)
    with 3 obtain i where "x = Inr (Some i)" by (cases y) auto
    with 3 show ?thesis by (auto simp: proxy_response_decode_iff dest: decode_frame_extend)
  qed
qed

section \<open>Round trips\<close>

definition rng_ok :: "(nat \<Rightarrow> bytes option) \<Rightarrow> bool" where
  "rng_ok rng \<longleftrightarrow> (\<exists>random. rng 4 = Some random \<and> length random = 4)"

definition transfer_fits :: "proxy_transfer \<Rightarrow> bool" where
  "transfer_fits t \<longleftrightarrow> transfer_wf t \<and> length (payload_bytes t) < 2 ^ 32"

definition crates_ok :: "('ok, 'sk, 'x) crates_scheme \<Rightarrow> bool" where
  "crates_ok L \<longleftrightarrow> bytes_ok L \<and> byteorder_ok L \<and> ring_ok L"

lemma crates_okD:
  "crates_ok L \<Longrightarrow> bytes_ok L" "crates_ok L \<Longrightarrow> byteorder_ok L" "crates_ok L \<Longrightarrow> ring_ok L"
  by (simp_all add: crates_ok_def)

text \<open>The bytes that make the decoder panic: an authenticated frame whose payload is malformed.\<close>

definition frame_malformed :: "('ok, 'sk, 'x) crates_scheme \<Rightarrow> ('ok, 'sk) proxy_codec \<Rightarrow> bytes \<Rightarrow> bool" where
  "frame_malformed L c src \<longleftrightarrow> (\<exists>u ty payload f rest. src = f @ rest \<and> is_frame L c u ty payload f \<and>
     payload_transfer ty payload = None)"

lemma decode_frame_panics:
  assumes "crates_ok L" and "codec_ok L c"
  shows "(\<exists>rest. decode_frame L c src = (Inl Panic, rest)) \<longleftrightarrow> frame_malformed L c src"
proof
  note ok = crates_okD [OF assms(1)] assms(2)
  show "frame_malformed L c src" if "\<exists>rest. decode_frame L c src = (Inl Panic, rest)"
    using that decode_frame_sound [OF ok _ disjI1 [OF refl]] by (fastforce simp: frame_malformed_def)
  show "\<exists>rest. decode_frame L c src = (Inl Panic, rest)" if "frame_malformed L c src"
    using that decode_frame_on_frame [OF ok] by (fastforce simp: frame_malformed_def)
qed

lemma frame_roundtrip:
  assumes "crates_ok L" and "codec_ok L c" and "rng_ok rng" and "transfer_fits t"
  shows "\<exists>f dst'. encode_frame L c rng u (length (payload_bytes t)) (snd (transfer_header t)) t dst = Inr dst' \<and>
    contents dst' = contents dst @ f \<and> length f = length (payload_bytes t) + 43 \<and>
    (\<forall>rest. decode_frame L c (f @ rest) =
       (Inr (Some (u, length (payload_bytes t), snd (transfer_header t), t)), rest))"
proof -
  note ok = crates_okD [OF assms(1)]
  from assms(3) obtain random where r: "rng 4 = Some random" "length random = 4"
    by (auto simp: rng_ok_def)
  from assms(4) have t: "transfer_wf t" "length (payload_bytes t) < 2 ^ 32"
    by (simp_all add: transfer_fits_def)
  from encode_frame_ok [where rng = rng, OF ok assms(2) r t(2), of u "snd (transfer_header t)" dst]
  obtain f dst' where e: "encode_frame L c rng u (length (payload_bytes t)) (snd (transfer_header t)) t dst = Inr dst'"
    "contents dst' = contents dst @ f" "length f = length (payload_bytes t) + 43"
    and fr: "is_frame L c u (transfer_type_byte (snd (transfer_header t))) (payload_bytes t) f"
    by blast
  from decode_frame_on_frame [OF ok assms(2) fr] payload_transfer_bytes [OF t(1)] e show ?thesis
    by auto
qed

lemma request_roundtrip_aux:
  assumes "crates_ok L" and "codec_ok L c" and "rng_ok rng" and "transfer_fits t"
  shows "\<exists>f dst'. proxy_request_encode L c rng (proxy_request_new u t) dst = Inr dst' \<and>
    contents dst' = contents dst @ f \<and> length f = length (payload_bytes t) + 43 \<and>
    (\<forall>rest. proxy_request_decode L c (f @ rest) = (Inr (Some (proxy_request_new u t)), c, rest))"
  using frame_roundtrip [OF assms, of u dst]
  by (simp add: proxy_request_encode_def proxy_request_decode_iff)

lemma response_roundtrip_aux:
  assumes "crates_ok L" and "codec_ok L c" and "rng_ok rng" and "transfer_fits t"
  shows "\<exists>f dst'. proxy_response_encode L c rng (proxy_response_new u t) dst = Inr dst' \<and>
    contents dst' = contents dst @ f \<and> length f = length (payload_bytes t) + 43 \<and>
    (\<forall>rest. proxy_response_decode L c (f @ rest) = (Inr (Some (proxy_response_new u t)), c, rest))"
  using frame_roundtrip [OF assms, of u dst]
  by (simp add: proxy_response_encode_def proxy_response_decode_iff)

definition request_good ::
    "('ok, 'sk, 'x) crates_scheme \<Rightarrow> ('ok, 'sk) proxy_codec \<Rightarrow> (nat \<Rightarrow> bytes option) \<Rightarrow> proxy_request \<Rightarrow> bool" where
  "request_good L c rng i \<longleftrightarrow> crates_ok L \<and> codec_ok L c \<and> rng_ok rng \<and>
     (\<exists>u t. i = proxy_request_new u t \<and> transfer_fits t)"

definition response_good ::
    "('ok, 'sk, 'x) crates_scheme \<Rightarrow> ('ok, 'sk) proxy_codec \<Rightarrow> (nat \<Rightarrow> bytes option) \<Rightarrow> proxy_response \<Rightarrow> bool" where
  "response_good L c rng i \<longleftrightarrow> crates_ok L \<and> codec_ok L c \<and> rng_ok rng \<and>
     (\<exists>u t. i = proxy_response_new u t \<and> transfer_fits t)"

lemma decode_frame_idle: "decode_frame L c [] = (Inr None, [])"
  by (simp add: decode_frame_def)

interpretation rqc: framed_codec bytes_ok proxy_request_decode proxy_request_encode request_good
proof (unfold_locales, goal_cases)
  case 1
  show ?case by (simp add: proxy_request_decode_iff decode_frame_idle)
next
  case (2 L s r i dst)
  then obtain u t where i: "i = proxy_request_new u t" and g: "crates_ok L" "codec_ok L s" "rng_ok r" "transfer_fits t"
    by (auto simp: request_good_def)
  from request_roundtrip_aux [OF g, of u dst] show ?case unfolding i by (metis append_Nil2)
qed

interpretation rsc: framed_codec bytes_ok proxy_response_decode proxy_response_encode response_good
proof (unfold_locales, goal_cases)
  case 1
  show ?case by (simp add: proxy_response_decode_iff decode_frame_idle)
next
  case (2 L s r i dst)
  then obtain u t where i: "i = proxy_response_new u t" and g: "crates_ok L" "codec_ok L s" "rng_ok r" "transfer_fits t"
    by (auto simp: response_good_def)
  from response_roundtrip_aux [OF g, of u dst] show ?case unfolding i by (metis append_Nil2)
qed

end
