(* ===== verification/Codec_Ref.thy ===== *)
theory Codec_Ref
  imports Proxy_Codec Crates_Ref
begin

text \<open>
  A configuration and the codec built from it on the reference instance of the crates: the
  inputs on which the witnesses evaluate the tunnel.
\<close>

definition ref_config :: resolved_crypto where
  "ref_config = \<lparr>rc_key = rstr ''12312'', rc_salt = rstr ''2121'', rc_crypto_method = AES_256_GCM,
     rc_digest_method = SHA256, rc_digest_iteration = 1\<rparr>"

definition ref_key_bytes :: bytes where
  "ref_key_bytes = ref_derive SHA256 1 (rstr ''2121'') (rstr ''12312'') (replicate 32 0)"

definition ref_codec :: "(ref_key, ref_key) proxy_codec" where
  "ref_codec = \<lparr>pc_crypto_algorithm = AES_256_GCM, pc_opening_key = (AES_256_GCM, ref_key_bytes),
     pc_sealing_key = (AES_256_GCM, ref_key_bytes), pc_nonce_bytes = replicate 12 1, pc_tag_len = 16\<rparr>"

definition ref_rng :: "nat \<Rightarrow> bytes option" where
  "ref_rng n = Some (replicate n 7)"

definition empty_buf :: bytes_mut where
  "empty_buf = \<lparr>contents = [], capacity = 0\<rparr>"

lemma ref_codec_new: "proxy_codec_new ref_crates ref_config = Inr ref_codec"
  by (simp add: proxy_codec_new_def ref_config_def ref_codec_def ref_key_bytes_def ref_crates_def
      ref_key_new_def ref_derive_def Let_def)

lemma empty_buf_contents [simp]: "contents empty_buf = []"
  by (simp add: empty_buf_def)

end
