(* ===== verification/Tunnel_Properties.thy ===== *)
theory Tunnel_Properties
  imports Proxy_Roundtrip Codec_Ref
begin

text \<open>
  The properties of the tunnel codec, each over two ends that built their codec from the same
  configuration, with a witness on the reference instance of the crates.
\<close>

lemma ref_crates_ok: "crates_ok ref_crates"
  by (simp add: crates_ok_def ref_ok)

lemma ref_rng_ok: "rng_ok ref_rng"
  by (simp add: rng_ok_def ref_rng_def)

lemmas ref_facts = ref_crates_ok ref_codec_new ref_rng_ok

section \<open>Round trips\<close>

text \<open>
  A request built by its constructor from a payload below \<open>2 ^ 32\<close> bytes is encoded, within
  the space reserved, into a frame of 43 bytes more than its payload, and the other end decodes
  that frame into the same request whatever bytes follow it.
\<close>

theorem request_roundtrip:
  assumes "crates_ok L" and "proxy_codec_new L cfg = Inr c" and "rng_ok rng" and "transfer_fits t"
  shows "\<exists>f dst'. proxy_request_encode L c rng (proxy_request_new u t) dst = Inr dst' \<and>
    contents dst' = contents dst @ f \<and> length f = length (payload_bytes t) + 43 \<and>
    (\<forall>rest. proxy_request_decode L c (f @ rest) = (Inr (Some (proxy_request_new u t)), c, rest))"
  using request_roundtrip_aux [OF assms(1) codec_new_ok assms(3,4)] assms(1,2) crates_okD(3) by blast

theorem request_roundtrip_witness:
  "\<exists>f dst'. proxy_request_encode ref_crates ref_codec ref_rng
      (proxy_request_new 40000 (PTData [1, 2, 3])) empty_buf = Inr dst' \<and>
    contents dst' = contents empty_buf @ f \<and> length f = length (payload_bytes (PTData [1, 2, 3])) + 43 \<and>
    (\<forall>rest. proxy_request_decode ref_crates ref_codec (f @ rest) =
      (Inr (Some (proxy_request_new 40000 (PTData [1, 2, 3]))), ref_codec, rest))"
  by (rule request_roundtrip [OF ref_facts]) (simp add: transfer_fits_def)

text \<open>
  Any sequence of requests written into one buffer is delivered to the other end complete,
  in order, unchanged and without error, however the transport cuts the bytes into chunks.
\<close>

theorem request_stream_delivered:
  assumes "crates_ok L" and "proxy_codec_new L cfg = Inr c"
    and "\<forall>(rng, u, t) \<in> set msgs. rng_ok rng \<and> transfer_fits t" and "contents dst = []"
  shows "\<exists>dst'. encode_all (proxy_request_encode L c)
        (map (\<lambda>(rng, u, t). (rng, proxy_request_new u t)) msgs) dst = Inr dst' \<and>
    (\<forall>cs. concat cs = contents dst' \<longrightarrow> delivered (feed (proxy_request_decode L) c [] cs) =
       (map (\<lambda>(rng, u, t). proxy_request_new u t) msgs, None))"
proof -
  let ?xs = "map (\<lambda>(rng, u, t). (rng, proxy_request_new u t)) msgs"
  have "codec_ok L c" using assms(1,2) codec_new_ok crates_okD(3) by blast
  with assms(1,3) have "\<forall>(r, i) \<in> set ?xs. request_good L c r i"
    by (fastforce simp: request_good_def)
  note del = rqc.stream_delivered [OF crates_okD(1) [OF assms(1)] this assms(4)]
  have "map snd ?xs = map (\<lambda>(rng, u, t). proxy_request_new u t) msgs" by (simp add: case_prod_beta)
  from del [unfolded this] show ?thesis .
qed

theorem request_stream_delivered_witness:
  "\<exists>dst'. encode_all (proxy_request_encode ref_crates ref_codec)
        (map (\<lambda>(rng, u, t). (rng, proxy_request_new u t))
          [(ref_rng, 0, PTHeartbeat 5), (ref_rng, 40000, PTRequestAddr (rstr ''a:80''))]) empty_buf = Inr dst' \<and>
    (\<forall>cs. concat cs = contents dst' \<longrightarrow> delivered (feed (proxy_request_decode ref_crates) ref_codec [] cs) =
       (map (\<lambda>(rng, u, t). proxy_request_new u t)
          [(ref_rng, 0, PTHeartbeat 5), (ref_rng, 40000, PTRequestAddr (rstr ''a:80''))], None))"
  by (rule request_stream_delivered [OF ref_crates_ok ref_codec_new])
    (simp_all add: ref_rng_ok transfer_fits_def rstr_def)

text \<open>The same delivery for any sequence of responses.\<close>

theorem response_stream_delivered:
  assumes "crates_ok L" and "proxy_codec_new L cfg = Inr c"
    and "\<forall>(rng, u, t) \<in> set msgs. rng_ok rng \<and> transfer_fits t" and "contents dst = []"
  shows "\<exists>dst'. encode_all (proxy_response_encode L c)
        (map (\<lambda>(rng, u, t). (rng, proxy_response_new u t)) msgs) dst = Inr dst' \<and>
    (\<forall>cs. concat cs = contents dst' \<longrightarrow> delivered (feed (proxy_response_decode L) c [] cs) =
       (map (\<lambda>(rng, u, t). proxy_response_new u t) msgs, None))"
proof -
  let ?xs = "map (\<lambda>(rng, u, t). (rng, proxy_response_new u t)) msgs"
  have "codec_ok L c" using assms(1,2) codec_new_ok crates_okD(3) by blast
  with assms(1,3) have "\<forall>(r, i) \<in> set ?xs. response_good L c r i"
    by (fastforce simp: response_good_def)
  note del = rsc.stream_delivered [OF crates_okD(1) [OF assms(1)] this assms(4)]
  have "map snd ?xs = map (\<lambda>(rng, u, t). proxy_response_new u t) msgs" by (simp add: case_prod_beta)
  from del [unfolded this] show ?thesis .
qed

theorem response_stream_delivered_witness:
  "\<exists>dst'. encode_all (proxy_response_encode ref_crates ref_codec)
        (map (\<lambda>(rng, u, t). (rng, proxy_response_new u t))
          [(ref_rng, 9, PTResponse RTSucceeded), (ref_rng, 9, PTData [72, 105])]) empty_buf = Inr dst' \<and>
    (\<forall>cs. concat cs = contents dst' \<longrightarrow> delivered (feed (proxy_response_decode ref_crates) ref_codec [] cs) =
       (map (\<lambda>(rng, u, t). proxy_response_new u t)
          [(ref_rng, 9, PTResponse RTSucceeded), (ref_rng, 9, PTData [72, 105])], None))"
  by (rule response_stream_delivered [OF ref_crates_ok ref_codec_new])
    (simp_all add: ref_rng_ok transfer_fits_def)

section \<open>What a decoder accepts, refuses and waits for\<close>

lemma codec_new_is_ok: "crates_ok L \<Longrightarrow> proxy_codec_new L cfg = Inr c \<Longrightarrow> codec_ok L c"
  using codec_new_ok crates_okD(3) by blast

definition ref_frame_request :: proxy_request where
  "ref_frame_request = proxy_request_new 513 (PTData [9])"

definition ref_frame :: bytes where
  "ref_frame = [60, 59, 65, 65, 65, 65, 58, 58, 58, 59, 58] @ replicate 16 141 @ [67] @ replicate 16 100"

lemma length_ref_frame: "length ref_frame = 44"
  by (simp add: ref_frame_def)

lemma ref_frame_encoded: "proxy_request_encode ref_crates ref_codec ref_rng ref_frame_request empty_buf =
    Inr \<lparr>contents = ref_frame, capacity = 44\<rparr>"
  by code_simp

lemma ref_frame_decoded:
  "proxy_request_decode ref_crates ref_codec (ref_frame @ [7]) = (Inr (Some ref_frame_request), ref_codec, [7])"
  by code_simp

lemma payload_transfer_length:
  assumes "payload_transfer ty payload = Some (tt, t)" and "\<forall>k. t = PTHeartbeat k \<longrightarrow> length payload = 4"
  shows "length payload = length (payload_bytes t)"
  using assms by (auto simp: payload_transfer_def split: if_splits list.splits)

text \<open>
  C8: the decoder accepts nothing but what the encoder writes. An accepted request is the one
  its constructor builds, and the bytes consumed are its encoding for some random bytes; the one
  exception is a heartbeat whose authenticated payload is longer than its 4 bytes of index, of
  which the decoder ignores the rest.
\<close>

theorem request_canonical:
  assumes "crates_ok L" and "proxy_codec_new L cfg = Inr c"
    and "proxy_request_decode L c src = (Inr (Some i), c', rest)"
    and "\<forall>k. prq_request i = PTHeartbeat k \<longrightarrow> prq_transfer_len i = 4"
  shows "c' = c \<and> i = proxy_request_new (prq_uuid i) (prq_request i) \<and> transfer_fits (prq_request i) \<and>
    (\<exists>f random. src = f @ rest \<and> length random = 4 \<and>
       (\<forall>dst. \<exists>dst'. proxy_request_encode L c (\<lambda>n. Some random) i dst = Inr dst' \<and>
          contents dst' = contents dst @ f))"
proof -
  note ok = crates_okD [OF assms(1)] codec_new_is_ok [OF assms(1,2)]
  from assms(3) have c: "c' = c" and d: "decode_frame L c src =
      (Inr (Some (prq_uuid i, prq_transfer_len i, prq_transfer_type i, prq_request i)), rest)"
    by (simp_all add: proxy_request_decode_iff)
  from decode_frame_sound [OF ok d disjI2 [OF refl]] obtain f u ty payload where
    src: "src = f @ rest" and fr: "is_frame L c u ty payload f" and u: "prq_uuid i = u"
    and n: "prq_transfer_len i = length payload"
    and t: "payload_transfer ty payload = Some (prq_transfer_type i, prq_request i)" by auto
  have len: "length payload = length (payload_bytes (prq_request i))"
    using payload_transfer_length [OF t] assms(4) n by simp
  note inv = payload_transfer_inv [OF t len]
  have new: "i = proxy_request_new (prq_uuid i) (prq_request i)"
    using inv n len by (cases i) simp
  from fr inv have "is_frame L c u (transfer_type_byte (prq_transfer_type i)) (payload_bytes (prq_request i)) f"
    by simp
  from frame_is_encoding [OF ok this] this inv show ?thesis
    using c src new u n len by (auto simp: proxy_request_encode_def transfer_fits_def is_frame_def)
qed

theorem request_canonical_witness:
  "ref_codec = ref_codec \<and>
    ref_frame_request = proxy_request_new (prq_uuid ref_frame_request) (prq_request ref_frame_request) \<and>
    transfer_fits (prq_request ref_frame_request) \<and>
    (\<exists>f random. ref_frame @ [7] = f @ [7] \<and> length random = 4 \<and>
       (\<forall>dst. \<exists>dst'. proxy_request_encode ref_crates ref_codec (\<lambda>n. Some random) ref_frame_request dst = Inr dst' \<and>
          contents dst' = contents dst @ f))"
  by (rule request_canonical [OF ref_crates_ok ref_codec_new ref_frame_decoded])
    (simp add: ref_frame_request_def proxy_request_new_def)

text \<open>
  A strict prefix of an encoded request makes the decoder wait: it reports no item and no
  error, keeps its buffer, and so decodes the request once the missing bytes arrive.
\<close>

theorem request_partial_waits:
  assumes "crates_ok L" and "proxy_codec_new L cfg = Inr c" and "rng_ok rng" and "transfer_fits t"
    and "proxy_request_encode L c rng (proxy_request_new u t) dst = Inr dst'"
    and "contents dst' = contents dst @ part @ missing" and "missing \<noteq> []"
  shows "proxy_request_decode L c part = (Inr None, c, part) \<and>
    proxy_request_decode L c (part @ missing) = (Inr (Some (proxy_request_new u t)), c, [])"
proof -
  note ok = crates_okD [OF assms(1)] codec_new_is_ok [OF assms(1,2)]
  from assms(3) obtain random where r: "rng 4 = Some random" "length random = 4"
    by (auto simp: rng_ok_def)
  from assms(4) have t: "transfer_wf t" "length (payload_bytes t) < 2 ^ 32" by (simp_all add: transfer_fits_def)
  from encode_frame_ok [where rng = rng, OF ok r t(2), of u "snd (transfer_header t)" dst] assms(5,6)
  have fr: "is_frame L c u (transfer_type_byte (snd (transfer_header t))) (payload_bytes t) (part @ missing)"
    by (auto simp: proxy_request_encode_def)
  from decode_frame_waits [OF ok(2-4) this assms(7)] decode_frame_on_frame [OF ok fr, of "[]"]
    payload_transfer_bytes [OF t(1)] show ?thesis
    by (simp add: proxy_request_decode_iff)
qed

theorem request_partial_waits_witness:
  "proxy_request_decode ref_crates ref_codec (take 40 ref_frame) = (Inr None, ref_codec, take 40 ref_frame) \<and>
    proxy_request_decode ref_crates ref_codec (take 40 ref_frame @ drop 40 ref_frame) =
      (Inr (Some (proxy_request_new 513 (PTData [9]))), ref_codec, [])"
  by (rule request_partial_waits [OF ref_facts _ ref_frame_encoded [unfolded ref_frame_request_def]])
    (simp_all add: transfer_fits_def length_ref_frame)

text \<open>
  C27: the only input that panics the decoder is an authenticated frame whose payload is
  malformed: an unknown type byte, an address that is not UTF-8, a response that is not one known
  byte, a heartbeat shorter than 4 bytes. Bytes that do not carry both tags never panic it.
\<close>

theorem request_decode_panics_iff:
  assumes "crates_ok L" and "proxy_codec_new L cfg = Inr c"
  shows "(\<exists>c' rest. proxy_request_decode L c src = (Inl Panic, c', rest)) \<longleftrightarrow>
    (\<exists>u ty payload f rest. src = f @ rest \<and> is_frame L c u ty payload f \<and>
       payload_transfer ty payload = None)"
  using decode_frame_panics [OF assms(1) codec_new_is_ok [OF assms]]
  by (simp add: proxy_request_decode_iff frame_malformed_def)

theorem request_decode_panics_iff_witness:
  "(\<exists>c' rest. proxy_request_decode ref_crates ref_codec (ref_frame @ [7]) = (Inl Panic, c', rest)) \<longleftrightarrow>
    (\<exists>u ty payload f rest. ref_frame @ [7] = f @ rest \<and>
       is_frame ref_crates ref_codec u ty payload f \<and> payload_transfer ty payload = None)"
  by (rule request_decode_panics_iff [OF ref_crates_ok ref_codec_new])

text \<open>
  C29: a stream that does not begin with a header sealed under the codec's key delivers nothing:
  however it is cut, the reader ends with the decoder's error and the decoder leaves the buffer
  as it was, so nothing behind the bad header is ever read.
\<close>

theorem forged_header_rejected:
  assumes "crates_ok L" and "proxy_codec_new L cfg = Inr c"
    and "concat cs = h @ ys" and "length h = 27" and "\<forall>pt. \<not> opens L c [] h pt"
  shows "delivered (feed (proxy_request_decode L) c [] cs) = ([], Some (Err DecError)) \<and>
    proxy_request_decode L c (h @ ys) = (Inl (Err DecError), c, h @ ys)"
proof -
  note ok = crates_okD [OF assms(1)] codec_new_is_ok [OF assms(1,2)]
  have d: "proxy_request_decode L c (h @ ys) = (Inl (Err DecError), c, h @ ys)"
    using decode_frame_unopened [OF ok(3,4) assms(4,5)] by (simp add: proxy_request_decode_iff)
  have "drain (proxy_request_decode L) c [] = ([], None, c, [])"
    by (rule rqd.wait_step) (simp add: proxy_request_decode_iff decode_frame_idle)
  from rqd.feed_eq_drain [OF ok(1) this, of cs] assms(3) d drain_error [of "proxy_request_decode L", OF d] show ?thesis by simp
qed

theorem forged_header_rejected_witness:
  "delivered (feed (proxy_request_decode ref_crates) ref_codec [] [replicate 20 0, replicate 7 0 @ ref_frame]) =
      ([], Some (Err DecError)) \<and>
    proxy_request_decode ref_crates ref_codec (replicate 27 0 @ ref_frame) =
      (Inl (Err DecError), ref_codec, replicate 27 0 @ ref_frame)"
proof (rule forged_header_rejected [OF ref_crates_ok ref_codec_new])
  show "concat [replicate 20 0, replicate 7 0 @ ref_frame] = replicate 27 (0 :: u8) @ ref_frame"
    by (simp add: numeral_eq_Suc)
  have "fst (open_in_place ref_crates (pc_opening_key ref_codec) (pc_nonce_bytes ref_codec) [] 0
      (replicate 27 0)) = None" by code_simp
  then show "\<forall>pt. \<not> opens ref_crates ref_codec [] (replicate 27 0) pt" by (simp add: opens_def)
qed simp

text \<open>
  C23: what the server's reader delivers, items and final error alike, depends only on the bytes
  of the stream and not on how the transport cuts them, for every stream, honest or not.
\<close>

theorem request_chunks_irrelevant:
  assumes "bytes_ok L" and "concat cs = concat ds"
  shows "delivered (feed (proxy_request_decode L) c [] cs) =
    delivered (feed (proxy_request_decode L) c [] ds)"
proof -
  have "drain (proxy_request_decode L) c [] = ([], None, c, [])"
    by (rule rqd.wait_step) (simp add: proxy_request_decode_iff decode_frame_idle)
  from rqd.feed_eq_drain [OF assms(1) this] assms(2) show ?thesis by simp
qed

theorem request_chunks_irrelevant_witness:
  "delivered (feed (proxy_request_decode ref_crates) ref_codec [] [[60], [], [59, 65]]) =
    delivered (feed (proxy_request_decode ref_crates) ref_codec [] [[60, 59], [65]])"
  by (rule request_chunks_irrelevant) (simp_all add: ref_ok)

end
