(* ===== verification/Actor.thy ===== *)
theory Actor
  imports Prelude
begin

text \<open>
  The actor contract. The framework owns an actor's state and calls its handlers one message at
  a time; a handler returns the new state and its effects (messages to other actors, bytes to a
  writer, a stop request), or panics. \<open>run_actor\<close> is that caller, over any handler; \<open>'e\<close> is
  what a call reads from outside (the clock, the result of a system call). The locale \<open>actor\<close>
  states what a proof about an actor supplies: a relation between the state and the history of
  messages and effects that every call keeps.
\<close>

section \<open>Clock and counters\<close>

text \<open>
  An \<open>Instant\<close> and a \<open>Duration\<close> are numbers of nanoseconds. \<open>duration_since\<close> panics on a
  clock that went backwards.
\<close>

type_synonym instant = nat
type_synonym duration = nat

definition from_secs :: "nat \<Rightarrow> duration" where
  "from_secs n = n * 1000000000"

definition duration_since :: "instant \<Rightarrow> instant \<Rightarrow> duration option" where
  "duration_since now earlier = (if now < earlier then None else Some (now - earlier))"

lemma duration_since_ok [simp]: "earlier \<le> now \<Longrightarrow> duration_since now earlier = Some (now - earlier)"
  by (simp add: duration_since_def)

lemma duration_since_None [simp]: "duration_since now earlier = None \<longleftrightarrow> now < earlier"
  by (simp add: duration_since_def)

text \<open>
  \<open>a += b\<close> on an unsigned integer: with overflow checks (a debug build) an overflow panics,
  without them (a release build) it wraps.
\<close>

definition add_assign :: "bool \<Rightarrow> 'a :: len word \<Rightarrow> 'a word \<Rightarrow> 'a word option" where
  "add_assign checks a b =
     (if checks \<and> 2 ^ LENGTH('a) \<le> unat a + unat b then None else Some (a + b))"

lemma add_assign_unchecked [simp]: "add_assign False a b = Some (a + b)"
  by (simp add: add_assign_def)

lemma add_assign_Some: "add_assign checks a b = Some c \<Longrightarrow> c = a + b"
  by (simp add: add_assign_def split: if_splits)

section \<open>Running an actor over its messages\<close>

type_synonym ('s, 'm, 'o) handler = "'s \<Rightarrow> 'm \<Rightarrow> ('s \<times> 'o list) res"

datatype outcome = Running | Stopped | Crashed fault

fun run_actor :: "('e \<Rightarrow> ('s, 'm, 'o) handler) \<Rightarrow> ('o \<Rightarrow> bool) \<Rightarrow> 's \<Rightarrow> ('e \<times> 'm) list \<Rightarrow>
    'o list \<times> outcome \<times> 's" where
  "run_actor h stops s [] = ([], Running, s)"
| "run_actor h stops s ((e, m) # ms) =
     (case h e s m of
        Inl f \<Rightarrow> ([], Crashed f, s)
      | Inr (s', os) \<Rightarrow>
          (if list_ex stops os then (os, Stopped, s')
           else (case run_actor h stops s' ms of (qs, oc, t) \<Rightarrow> (os @ qs, oc, t))))"

declare run_actor.simps(2) [simp del]

text \<open>A run that ends in a panic.\<close>

definition crashes :: "'o list \<times> outcome \<times> 's \<Rightarrow> bool" where
  "crashes r \<longleftrightarrow> (\<exists>f. fst (snd r) = Crashed f)"

lemma crashes_Crashed [simp]: "crashes (os, Crashed f, s)" "\<not> crashes (os, Running, s)" "\<not> crashes (os, Stopped, s)"
  by (simp_all add: crashes_def)

lemma run_actor_crashes [simp]:
  "crashes (run_actor h stops s ((e, m) # ms)) \<longleftrightarrow>
     (case h e s m of Inl f \<Rightarrow> True
      | Inr (s', os) \<Rightarrow> \<not> list_ex stops os \<and> crashes (run_actor h stops s' ms))"
  by (simp add: crashes_def run_actor.simps(2) split: sum.splits prod.splits)

text \<open>
  \<open>rel s h os\<close>: in state \<open>s\<close>, after the calls \<open>h\<close>, the effects so far were \<open>os\<close>.
\<close>

locale actor =
  fixes handle :: "'p \<Rightarrow> 'e \<Rightarrow> ('s, 'm, 'o) handler"
    and stops :: "'o \<Rightarrow> bool"
    and rel :: "'p \<Rightarrow> 's \<Rightarrow> ('e \<times> 'm) list \<Rightarrow> 'o list \<Rightarrow> bool"
  assumes keeps: "rel p s h os \<Longrightarrow> handle p e s m = Inr (s', qs) \<Longrightarrow> rel p s' (h @ [(e, m)]) (os @ qs)"
begin

text \<open>
  After a run the relation holds for the calls that returned; a crash is the crash of the next
  call in the state reached.
\<close>

lemma run_keeps:
  assumes "rel p s h os" and "run_actor (handle p) stops s ms = (qs, oc, t)"
  shows "\<exists>calls rest. ms = calls @ rest \<and> rel p t (h @ calls) (os @ qs) \<and>
    (oc = Running \<longrightarrow> rest = []) \<and> (oc = Stopped \<longrightarrow> list_ex stops qs) \<and>
    (\<forall>f. oc = Crashed f \<longrightarrow> (\<exists>e m rest'. rest = (e, m) # rest' \<and> handle p e t m = Inl f))"
  using assms
proof (induction ms arbitrary: s h os qs)
  case Nil
  then show ?case by simp
next
  case (Cons em ms)
  obtain e m where em: "em = (e, m)" by (cases em)
  note run_actor.simps(2) [simp]
  show ?case
  proof (cases "handle p e s m")
    case (Inl f)
    with Cons.prems em show ?thesis by (intro exI [of _ "[]"] exI [of _ "em # ms"]) auto
  next
    case (Inr r)
    then obtain s' os' where r: "handle p e s m = Inr (s', os')" by (cases r) auto
    note rel' = keeps [OF Cons.prems(1) r]
    show ?thesis
    proof (cases "list_ex stops os'")
      case True
      with Cons.prems r em rel' show ?thesis by (intro exI [of _ "[em]"] exI [of _ ms]) auto
    next
      case False
      then obtain qs' where ru: "run_actor (handle p) stops s' ms = (qs', oc, t)" and qs: "qs = os' @ qs'"
        using Cons.prems r em by (auto split: prod.splits)
      from Cons.IH [OF rel' ru] obtain calls rest where "ms = calls @ rest"
        "rel p t ((h @ [(e, m)]) @ calls) ((os @ os') @ qs')" "oc = Running \<longrightarrow> rest = []"
        "oc = Stopped \<longrightarrow> list_ex stops qs'"
        "\<forall>f. oc = Crashed f \<longrightarrow> (\<exists>e m rest'. rest = (e, m) # rest' \<and> handle p e t m = Inl f)"
        by blast
      then show ?thesis by (intro exI [of _ "em # calls"] exI [of _ rest]) (auto simp: em qs)
    qed
  qed
qed

lemma run_running:
  assumes "rel p s [] []" and "run_actor (handle p) stops s ms = (qs, Running, t)"
  shows "rel p t ms qs"
  using run_keeps [OF assms] by auto

end

end
