(* ===== verification/Socks_Client.thy ===== *)
theory Socks_Client
  imports Actor Socks_Message Proxy_Message
begin

text \<open>
  The actor of one SOCKS connection (\<open>just-proxy-lib/src/socks.rs\<close>): requests of the
  application become requests to the server, responses of the connector become replies to the
  application. Each call reads the clock once per \<open>Instant::now()\<close>; \<open>checks\<close> says whether
  integer overflow is checked.
\<close>

section \<open>State, effects and handlers\<close>

record socks_client =
  sc_uuid :: u16
  sc_connect_request_record :: "instant option"
  sc_connect_rtt :: "duration option"
  sc_send_bytes :: u64
  sc_recv_bytes :: u64
  sc_target_address :: "rstring option"

datatype socks_effect = ToApp socks_response | ToServer proxy_request | StopClient

definition socks_client_new :: "u16 \<Rightarrow> socks_client" where
  "socks_client_new uuid =
     \<lparr>sc_uuid = uuid, sc_connect_request_record = None, sc_connect_rtt = None,
      sc_send_bytes = 0, sc_recv_bytes = 0, sc_target_address = None\<rparr>"

text \<open>\<open>self.connect_rtt = Some(now.duration_since(self.connect_request_record.unwrap()))\<close>\<close>

definition record_rtt :: "instant \<Rightarrow> socks_client \<Rightarrow> socks_client option" where
  "record_rtt now self = do {
     start \<leftarrow> sc_connect_request_record self;
     rtt \<leftarrow> duration_since now start;
     Some (self\<lparr>sc_connect_rtt := Some rtt\<rparr>) }"

definition succeeded_response :: target_response where
  "succeeded_response =
     \<lparr>tp_version = 5, tp_response = TRSucceeded, tp_reserved = 0,
      tp_response_type = DomainType, tp_address = DOMAIN (rstr ''123''), tp_port = 0\<rparr>"

definition refused_response :: target_response where
  "refused_response =
     \<lparr>tp_version = 5, tp_response = TRConnectionRefused, tp_reserved = 0,
      tp_response_type = DomainType, tp_address = DOMAIN (rstr ''''), tp_port = 0\<rparr>"

definition handle_connector_response ::
    "bool \<Rightarrow> instant \<Rightarrow> (socks_client, connector_response, socks_effect) handler" where
  "handle_connector_response checks now self msg = unwrap
     (case msg of
        CRSucceeded \<Rightarrow> do {
          self \<leftarrow> record_rtt now self;
          Some (self, [ToApp (SRespTarget succeeded_response)]) }
      | CRFailed \<Rightarrow> do {
          self \<leftarrow> record_rtt now self;
          address \<leftarrow> sc_target_address self;
          Some (self, [ToApp (SRespTarget refused_response)]) }
      | CRData data \<Rightarrow> do {
          n \<leftarrow> add_assign checks (sc_recv_bytes self) (word_of_nat (length data));
          Some (self\<lparr>sc_recv_bytes := n\<rparr>, [ToApp (SRespData data)]) }
      | CRAbort \<Rightarrow> Some (self, [StopClient]))"

definition handle_socks_request ::
    "bool \<Rightarrow> instant \<Rightarrow> (socks_client, socks_request, socks_effect) handler" where
  "handle_socks_request checks now self item = unwrap
     (case item of
        SReqNegotiation _ \<Rightarrow>
          Some (self, [ToApp (SRespNegotiation \<lparr>msp_version = 5, msp_method = 0\<rparr>)])
      | SReqTarget t \<Rightarrow>
          (let s = to_addressstring t in
           Some (self\<lparr>sc_connect_request_record := Some now, sc_target_address := Some s\<rparr>,
                 [ToServer (proxy_request_new (sc_uuid self) (PTRequestAddr s))]))
      | SReqData data \<Rightarrow> do {
          n \<leftarrow> add_assign checks (sc_send_bytes self) (word_of_nat (length data));
          Some (self\<lparr>sc_send_bytes := n\<rparr>,
                [ToServer (proxy_request_new (sc_uuid self) (PTData data))]) })"

text \<open>The two kinds of message the actor receives, and the dispatch on them.\<close>

datatype socks_client_msg = FromServer connector_response | FromApp socks_request

fun socks_client_handle ::
    "bool \<Rightarrow> instant \<Rightarrow> (socks_client, socks_client_msg, socks_effect) handler" where
  "socks_client_handle checks now self (FromServer msg) = handle_connector_response checks now self msg"
| "socks_client_handle checks now self (FromApp item) = handle_socks_request checks now self item"

definition is_stop :: "socks_effect \<Rightarrow> bool" where
  "is_stop e \<longleftrightarrow> e = StopClient"

lemma is_stop_simps [simp]: "is_stop StopClient" "\<not> is_stop (ToApp x)" "\<not> is_stop (ToServer r)"
  by (simp_all add: is_stop_def)

text \<open>What the application is sent.\<close>

fun app_replies :: "socks_effect list \<Rightarrow> socks_response list" where
  "app_replies [] = []"
| "app_replies (ToApp r # os) = r # app_replies os"
| "app_replies (_ # os) = app_replies os"

text \<open>
  What \<open>stopped\<close> logs: the address, the traffic and the round-trip time of the connect. A missing
  value is logged as unavailable.
\<close>

definition as_millis :: "duration \<Rightarrow> nat" where
  "as_millis d = d div 1000000"

definition socks_client_stopped :: "socks_client \<Rightarrow> rstring \<times> rstring \<times> rstring" where
  "socks_client_stopped self =
     (let cc = (case sc_connect_rtt self of
                  Some rtt \<Rightarrow> dec_digits (as_millis rtt) @ rstr '' millis''
                | None \<Rightarrow> rstr ''unavailable'');
          send = sc_send_bytes self;
          recv = sc_recv_bytes self;
          address = (case sc_target_address self of Some addr \<Rightarrow> addr | None \<Rightarrow> rstr ''unavailable'')
      in (address,
          rstr ''traffic send:'' @ dec_digits (unat send) @ rstr '' bytes, recv:'' @
            dec_digits (unat recv) @ rstr '' bytes'',
          cc))"

section \<open>What the actor is: a relay\<close>

text \<open>
  The answer to a message, as a function of the connection's identifier and the message alone.
\<close>

fun relay :: "u16 \<Rightarrow> socks_client_msg \<Rightarrow> socks_effect list" where
  "relay u (FromApp (SReqNegotiation _)) =
     [ToApp (SRespNegotiation \<lparr>msp_version = 5, msp_method = 0\<rparr>)]"
| "relay u (FromApp (SReqTarget t)) = [ToServer (proxy_request_new u (PTRequestAddr (to_addressstring t)))]"
| "relay u (FromApp (SReqData d)) = [ToServer (proxy_request_new u (PTData d))]"
| "relay u (FromServer CRSucceeded) = [ToApp (SRespTarget succeeded_response)]"
| "relay u (FromServer CRFailed) = [ToApp (SRespTarget refused_response)]"
| "relay u (FromServer (CRData d)) = [ToApp (SRespData d)]"
| "relay u (FromServer CRAbort) = [StopClient]"

fun sent_len :: "socks_client_msg \<Rightarrow> nat" where
  "sent_len (FromApp (SReqData d)) = length d"
| "sent_len _ = 0"

fun received_len :: "socks_client_msg \<Rightarrow> nat" where
  "received_len (FromServer (CRData d)) = length d"
| "received_len _ = 0"

text \<open>The time and address of the last target request.\<close>

fun last_target :: "(instant \<times> socks_client_msg) list \<Rightarrow> (instant \<times> rstring) option" where
  "last_target [] = None"
| "last_target ((now, FromApp (SReqTarget t)) # h) =
     (case last_target h of None \<Rightarrow> Some (now, to_addressstring t) | Some x \<Rightarrow> Some x)"
| "last_target (_ # h) = last_target h"

lemma last_target_append:
  "last_target (h @ k) = (case last_target k of None \<Rightarrow> last_target h | Some x \<Rightarrow> Some x)"
  by (induction h rule: last_target.induct) (auto split: option.splits)

text \<open>The state after a history of handled messages, and the effects it had.\<close>

definition socks_client_rel ::
    "u16 \<Rightarrow> socks_client \<Rightarrow> (instant \<times> socks_client_msg) list \<Rightarrow> socks_effect list \<Rightarrow> bool" where
  "socks_client_rel u s h os \<longleftrightarrow>
     sc_uuid s = u \<and>
     sc_send_bytes s = word_of_nat (sum_list (map (sent_len \<circ> snd) h)) \<and>
     sc_recv_bytes s = word_of_nat (sum_list (map (received_len \<circ> snd) h)) \<and>
     sc_connect_request_record s = map_option fst (last_target h) \<and>
     sc_target_address s = map_option snd (last_target h) \<and>
     os = concat (map (relay u \<circ> snd) h)"

lemma socks_client_rel_init: "socks_client_rel u (socks_client_new u) [] []"
  by (simp add: socks_client_rel_def socks_client_new_def)

lemma record_rtt_Some:
  "record_rtt now s = Some s' \<longleftrightarrow> (\<exists>start. sc_connect_request_record s = Some start \<and> start \<le> now \<and>
     s' = s\<lparr>sc_connect_rtt := Some (now - start)\<rparr>)"
  by (cases "sc_connect_request_record s") (auto simp: record_rtt_def duration_since_def)

lemma socks_client_step:
  assumes "socks_client_rel u s h os" and "socks_client_handle checks now s m = Inr (s', qs)"
  shows "socks_client_rel u s' (h @ [(now, m)]) (os @ qs)"
proof -
  note defs = socks_client_rel_def handle_connector_response_def handle_socks_request_def Let_def
    record_rtt_Some bind_eq_Some_conv last_target_append
  consider "m = FromServer CRSucceeded" | "m = FromServer CRFailed"
    | d where "m = FromServer (CRData d)" | "m = FromServer CRAbort"
    | g where "m = FromApp (SReqNegotiation g)" | t where "m = FromApp (SReqTarget t)"
    | d where "m = FromApp (SReqData d)"
    by (metis connector_response.exhaust socks_client_msg.exhaust socks_request.exhaust)
  then show ?thesis
  proof cases
    case 1
    with assms show ?thesis by (auto simp: defs)
  next
    case 2
    with assms show ?thesis by (auto simp: defs)
  next
    case 3
    with assms show ?thesis by (auto simp: defs dest!: add_assign_Some)
  next
    case 4
    with assms show ?thesis by (auto simp: defs)
  next
    case 5
    with assms show ?thesis by (auto simp: defs)
  next
    case 6
    with assms show ?thesis by (auto simp: defs)
  next
    case 7
    with assms show ?thesis by (auto simp: defs dest!: add_assign_Some)
  qed
qed

interpretation sca: actor "\<lambda>(u, checks). socks_client_handle checks" is_stop "\<lambda>(u, checks). socks_client_rel u"
  by unfold_locales (auto intro: socks_client_step)

lemmas socks_client_handlers = handle_connector_response_def handle_socks_request_def record_rtt_def Let_def

section \<open>Properties\<close>

text \<open>
  C18: the actor is a relay. Whatever messages it gets, each one it handles is answered as
  \<open>relay\<close> says, in order and with nothing in between: the greeting by the no-authentication
  reply, the target by a connect request under the actor's own identifier, application data by a
  data request, connector responses by the matching reply. The byte counters are the sums of
  the data handled, modulo \<open>2 ^ 64\<close>.
\<close>

theorem socks_client_relays:
  assumes "run_actor (socks_client_handle checks) is_stop (socks_client_new u) ms = (os, oc, s)"
  shows "\<exists>calls rest. ms = calls @ rest \<and> os = concat (map (relay u \<circ> snd) calls) \<and>
    sc_uuid s = u \<and>
    sc_send_bytes s = word_of_nat (sum_list (map (sent_len \<circ> snd) calls)) \<and>
    sc_recv_bytes s = word_of_nat (sum_list (map (received_len \<circ> snd) calls)) \<and>
    sc_target_address s = map_option snd (last_target calls) \<and>
    (oc = Running \<longrightarrow> rest = []) \<and> (oc = Stopped \<longrightarrow> StopClient \<in> set os)"
proof -
  from sca.run_keeps [of "(u, checks)" "socks_client_new u" "[]" "[]", simplified,
      OF socks_client_rel_init assms]
  obtain calls rest where "ms = calls @ rest" "socks_client_rel u s calls os"
    "oc = Running \<longrightarrow> rest = []" "oc = Stopped \<longrightarrow> list_ex is_stop os" by blast
  then show ?thesis
    by (intro exI [of _ calls] exI [of _ rest])
      (auto simp: socks_client_rel_def list_ex_iff is_stop_def)
qed

theorem socks_client_relays_witness:
  "\<exists>calls rest. [(5, FromApp (SReqData [1, 2])), (6, FromServer CRAbort), (7, FromServer CRAbort)] = calls @ rest \<and>
    [ToServer (proxy_request_new 9 (PTData [1, 2])), StopClient] = concat (map (relay 9 \<circ> snd) calls) \<and>
    sc_uuid (socks_client_new 9\<lparr>sc_send_bytes := 2\<rparr>) = 9 \<and>
    sc_send_bytes (socks_client_new 9\<lparr>sc_send_bytes := 2\<rparr>) = word_of_nat (sum_list (map (sent_len \<circ> snd) calls)) \<and>
    sc_recv_bytes (socks_client_new 9\<lparr>sc_send_bytes := 2\<rparr>) =
      word_of_nat (sum_list (map (received_len \<circ> snd) calls)) \<and>
    sc_target_address (socks_client_new 9\<lparr>sc_send_bytes := 2\<rparr>) = map_option snd (last_target calls) \<and>
    (Stopped = Running \<longrightarrow> rest = []) \<and>
    (Stopped = Stopped \<longrightarrow> StopClient \<in> set [ToServer (proxy_request_new 9 (PTData [1, 2])), StopClient])"
  by (rule socks_client_relays [where checks = True])
    (simp add: run_actor.simps socks_client_handlers socks_client_new_def add_assign_def)

text \<open>
  The report is true. When the actor has stopped, its log gives the last address it was asked
  for and, up to \<open>2 ^ 64\<close>, the number of bytes it took from the application and handed to it.
\<close>

theorem stop_report_true:
  assumes "run_actor (socks_client_handle checks) is_stop (socks_client_new u) ms = (os, Stopped, s)"
  shows "\<exists>calls rest rtt. ms = calls @ rest \<and> StopClient \<in> set os \<and>
    socks_client_stopped s =
      (case last_target calls of Some (_, addr) \<Rightarrow> addr | None \<Rightarrow> rstr ''unavailable'',
       rstr ''traffic send:'' @ dec_digits (sum_list (map (sent_len \<circ> snd) calls) mod 2 ^ 64) @
         rstr '' bytes, recv:'' @ dec_digits (sum_list (map (received_len \<circ> snd) calls) mod 2 ^ 64) @
         rstr '' bytes'', rtt)"
proof -
  from sca.run_keeps [of "(u, checks)" "socks_client_new u" "[]" "[]", simplified,
      OF socks_client_rel_init assms]
  obtain calls rest where c: "ms = calls @ rest" "socks_client_rel u s calls os" "list_ex is_stop os" by auto
  then have "unat (sc_send_bytes s) = sum_list (map (sent_len \<circ> snd) calls) mod 2 ^ 64"
    "unat (sc_recv_bytes s) = sum_list (map (received_len \<circ> snd) calls) mod 2 ^ 64"
    by (simp_all add: socks_client_rel_def unat_of_nat)
  moreover have "StopClient \<in> set os" using c(3) by (auto simp: list_ex_iff is_stop_def)
  ultimately show ?thesis
    using c(1,2) by (intro exI [of _ calls] exI [of _ rest])
      (auto simp: socks_client_stopped_def Let_def socks_client_rel_def split: option.splits)
qed

theorem stop_report_true_witness:
  "\<exists>calls rest rtt. [(5, FromApp (SReqData [1, 2])), (6, FromServer CRAbort)] = calls @ rest \<and>
    StopClient \<in> set [ToServer (proxy_request_new 9 (PTData [1, 2])), StopClient] \<and>
    socks_client_stopped (socks_client_new 9\<lparr>sc_send_bytes := 2\<rparr>) =
      (case last_target calls of Some (_, addr) \<Rightarrow> addr | None \<Rightarrow> rstr ''unavailable'',
       rstr ''traffic send:'' @ dec_digits (sum_list (map (sent_len \<circ> snd) calls) mod 2 ^ 64) @
         rstr '' bytes, recv:'' @ dec_digits (sum_list (map (received_len \<circ> snd) calls) mod 2 ^ 64) @
         rstr '' bytes'', rtt)"
  by (rule stop_report_true [where checks = True and u = 9])
    (simp add: run_actor.simps socks_client_handlers socks_client_new_def add_assign_def)

end
