(* ===== verification/Client_Server.thy ===== *)
theory Client_Server
  imports Actor Codec_Ref
begin

text \<open>
  The client-side end of the tunnel (\<open>just-proxy-lib/src/component/client.rs\<close>): the actor
  \<open>Server\<close> that owns the connection to the proxy server, multiplexes the requests of all SOCKS
  connections onto it, routes the responses back by identifier and keeps a heartbeat.
  Addresses of SOCKS actors are an opaque type \<open>'addr\<close>; \<open>clock k\<close> is the \<open>k\<close>-th reading of
  the clock within one call.
\<close>

section \<open>State, effects and handlers\<close>

type_synonym clock = "nat \<Rightarrow> instant"

record 'addr server =
  sv_clients :: "u16 \<Rightarrow> 'addr option"
  sv_hb :: instant
  sv_hb_index :: u32
  sv_last_hb_instant :: instant
  sv_crypto_config :: resolved_crypto

datatype 'addr server_effect =
    WriteRequest proxy_request
  | SendClient 'addr connector_response
  | SendHeartbeat
  | StartClient u16 'addr
  | StopServer

text \<open>\<open>Heartbeat\<close>, the two message types, the connection and the end of the response stream.\<close>

datatype 'addr server_msg =
    SVRequest proxy_request
  | SVResponse proxy_response
  | SVTick
  | SVHeartbeat
  | SVConnected u16 'addr
  | SVFinished

definition server_tick :: "clock \<Rightarrow> ('addr server, unit, 'addr server_effect) handler" where
  "server_tick clock act _ = unwrap (do {
     hb_duration \<leftarrow> duration_since (clock 0) (sv_hb act);
     Some (act, if hb_duration > from_secs 15 then [] else [SendHeartbeat]) })"

definition server_handle_request :: "('addr server, proxy_request, 'addr server_effect) handler" where
  "server_handle_request self msg = Inr (self, [WriteRequest msg])"

definition server_handle_response ::
    "clock \<Rightarrow> ('addr server, proxy_response, 'addr server_effect) handler" where
  "server_handle_response clock self item = unwrap
     (let uuid = prs_uuid item; response = prs_response item in
      if uuid = 0 then
        (case response of
           PTHeartbeat i \<Rightarrow> do {
             hb_rtt \<leftarrow> duration_since (clock 0) (sv_last_hb_instant self);
             Some (self\<lparr>sv_hb := clock 1\<rparr>, []) }
         | _ \<Rightarrow> None)
      else do {
        socks_client \<leftarrow> sv_clients self uuid;
        case response of
          PTData data \<Rightarrow> Some (self, [SendClient socks_client (CRData data)])
        | PTRequestAddr _ \<Rightarrow> None
        | PTResponse r \<Rightarrow>
            (case r of
               RTSucceeded \<Rightarrow> Some (self, [SendClient socks_client CRSucceeded])
             | RTConnectionRefused \<Rightarrow> Some (self, [SendClient socks_client CRFailed])
             | RTTimeout \<Rightarrow> Some (self, [SendClient socks_client CRFailed])
             | RTAbort \<Rightarrow> Some (self, [SendClient socks_client CRAbort]))
        | PTHeartbeat _ \<Rightarrow> None })"

definition server_finished :: "('addr server, unit, 'addr server_effect) handler" where
  "server_finished self _ = Inr (self, [StopServer])"

definition server_handle_heartbeat ::
    "bool \<Rightarrow> clock \<Rightarrow> ('addr server, unit, 'addr server_effect) handler" where
  "server_handle_heartbeat checks clock self _ = unwrap
     (let self = self\<lparr>sv_last_hb_instant := clock 0\<rparr> in
      do {
        i \<leftarrow> add_assign checks (sv_hb_index self) 1;
        Some (self\<lparr>sv_hb_index := i\<rparr>, [WriteRequest (proxy_request_new 0 (PTHeartbeat i))]) })"

text \<open>The started actor's address \<open>addr\<close> is the framework's choice.\<close>

definition server_handle_connected ::
    "('addr server, u16 \<times> 'addr, 'addr server_effect) handler" where
  "server_handle_connected self msg =
     (case msg of (uuid, addr) \<Rightarrow>
        Inr (self\<lparr>sv_clients := (sv_clients self)(uuid \<mapsto> addr)\<rparr>, [StartClient uuid addr]))"

fun server_handle ::
    "bool \<Rightarrow> clock \<Rightarrow> ('addr server, 'addr server_msg, 'addr server_effect) handler" where
  "server_handle checks clock self (SVRequest msg) = server_handle_request self msg"
| "server_handle checks clock self (SVResponse item) = server_handle_response clock self item"
| "server_handle checks clock self SVTick = server_tick clock self ()"
| "server_handle checks clock self SVHeartbeat = server_handle_heartbeat checks clock self ()"
| "server_handle checks clock self (SVConnected port addr) = server_handle_connected self (port, addr)"
| "server_handle checks clock self SVFinished = server_finished self ()"

fun stops_server :: "'addr server_effect \<Rightarrow> bool" where
  "stops_server StopServer = True"
| "stops_server _ = False"

text \<open>
  \<open>connect_callback\<close>: the reader's and the writer's codec and the actor's first state.
\<close>

definition connect_callback ::
    "('ok, 'sk, 'x) crates_scheme \<Rightarrow> clock \<Rightarrow> resolved_crypto \<Rightarrow>
     (('ok, 'sk) proxy_codec \<times> ('ok, 'sk) proxy_codec \<times> 'addr server) res" where
  "connect_callback L clock crypto =
     and_then (proxy_codec_new L crypto) (\<lambda>reader.
     and_then (proxy_codec_new L crypto) (\<lambda>writer.
     Inr (reader, writer,
       \<lparr>sv_clients = Map.empty, sv_hb = clock 0, sv_hb_index = 0,
        sv_last_hb_instant = clock 1, sv_crypto_config = crypto\<rparr>)))"

section \<open>What the actor does with a history\<close>

text \<open>The last actor started for each identifier.\<close>

fun registered :: "(u16 \<Rightarrow> 'addr option) \<Rightarrow> 'addr server_msg list \<Rightarrow> u16 \<Rightarrow> 'addr option" where
  "registered m [] = m"
| "registered m (SVConnected u a # h) = registered (m(u \<mapsto> a)) h"
| "registered m (_ # h) = registered m h"

text \<open>What a response means for the connection it names; \<open>None\<close> is a protocol violation.\<close>

fun response_meaning :: "proxy_transfer \<Rightarrow> connector_response option" where
  "response_meaning (PTData d) = Some (CRData d)"
| "response_meaning (PTResponse RTSucceeded) = Some CRSucceeded"
| "response_meaning (PTResponse RTAbort) = Some CRAbort"
| "response_meaning (PTResponse _) = Some CRFailed"
| "response_meaning _ = None"

text \<open>The responses passed on, each with the actor it goes to.\<close>

fun routed :: "(u16 \<Rightarrow> 'addr option) \<Rightarrow> 'addr server_msg list \<Rightarrow> ('addr \<times> connector_response) list" where
  "routed m [] = []"
| "routed m (SVConnected u a # h) = routed (m(u \<mapsto> a)) h"
| "routed m (SVResponse r # h) =
     (if prs_uuid r = 0 then []
      else (case (m (prs_uuid r), response_meaning (prs_response r)) of
              (Some a, Some c) \<Rightarrow> [(a, c)] | _ \<Rightarrow> [])) @ routed m h"
| "routed m (_ # h) = routed m h"

text \<open>The requests written to the tunnel; heartbeats are numbered from \<open>n + 1\<close> on.\<close>

fun written :: "nat \<Rightarrow> 'addr server_msg list \<Rightarrow> proxy_request list" where
  "written n [] = []"
| "written n (SVRequest r # h) = r # written n h"
| "written n (SVHeartbeat # h) =
     proxy_request_new 0 (PTHeartbeat (word_of_nat (Suc n))) # written (Suc n) h"
| "written n (_ # h) = written n h"

fun beats :: "'addr server_msg list \<Rightarrow> nat" where
  "beats [] = 0"
| "beats (SVHeartbeat # h) = Suc (beats h)"
| "beats (_ # h) = beats h"

text \<open>The two outputs of the actor: the tunnel's writer and the SOCKS actors.\<close>

fun requests_of :: "'addr server_effect list \<Rightarrow> proxy_request list" where
  "requests_of [] = []"
| "requests_of (WriteRequest r # os) = r # requests_of os"
| "requests_of (_ # os) = requests_of os"

fun sends_of :: "'addr server_effect list \<Rightarrow> ('addr \<times> connector_response) list" where
  "sends_of [] = []"
| "sends_of (SendClient a c # os) = (a, c) # sends_of os"
| "sends_of (_ # os) = sends_of os"

definition server_rel ::
    "'addr server \<Rightarrow> (clock \<times> 'addr server_msg) list \<Rightarrow> 'addr server_effect list \<Rightarrow> bool" where
  "server_rel s h os \<longleftrightarrow>
     (let ms = map snd h in
      sv_clients s = registered Map.empty ms \<and> sv_hb_index s = word_of_nat (beats ms) \<and>
      requests_of os = written 0 ms \<and> sends_of os = routed Map.empty ms)"

lemma history_append:
  "registered m (h @ k) = registered (registered m h) k"
  "routed m (h @ k) = routed m h @ routed (registered m h) k"
  "written n (h @ k) = written n h @ written (n + beats h) k"
  "beats (h @ k) = beats h + beats k"
  by (induction h arbitrary: m n rule: beats.induct) auto

lemma outputs_append [simp]:
  "requests_of (os @ qs) = requests_of os @ requests_of qs"
  "sends_of (os @ qs) = sends_of os @ sends_of qs"
  by (induction os rule: requests_of.induct) auto

text \<open>What a response does, on every branch.\<close>

lemma handle_response_cases:
  "server_handle_response clock s r =
     (if prs_uuid r = 0 then
        (case prs_response r of
           PTHeartbeat i \<Rightarrow>
             (if clock 0 < sv_last_hb_instant s then Inl Panic else Inr (s\<lparr>sv_hb := clock 1\<rparr>, []))
         | _ \<Rightarrow> Inl Panic)
      else (case (sv_clients s (prs_uuid r), response_meaning (prs_response r)) of
              (Some a, Some c) \<Rightarrow> Inr (s, [SendClient a c])
            | _ \<Rightarrow> Inl Panic))"
  by (auto simp: server_handle_response_def Let_def duration_since_def
      split: proxy_transfer.splits proxy_response_type.splits option.splits)

lemma server_step:
  assumes "server_rel s h os" and "server_handle checks clock s m = Inr (s', qs)"
  shows "server_rel s' (h @ [(clock, m)]) (os @ qs)"
proof (cases m)
  case (SVResponse r)
  with assms show ?thesis
    by (auto simp: server_rel_def Let_def history_append handle_response_cases
        split: if_splits proxy_transfer.splits option.splits)
next
  case SVTick
  with assms show ?thesis
    by (auto simp: server_rel_def Let_def history_append server_tick_def bind_eq_Some_conv)
next
  case SVHeartbeat
  with assms show ?thesis
    by (auto simp: server_rel_def Let_def history_append server_handle_heartbeat_def bind_eq_Some_conv
        add.commute dest!: add_assign_Some)
qed (use assms in \<open>auto simp: server_rel_def Let_def history_append server_handle_request_def
      server_handle_connected_def server_finished_def\<close>)

interpretation sva: actor server_handle stops_server "\<lambda>checks. server_rel"
  by unfold_locales (rule server_step)

section \<open>Properties\<close>

text \<open>The instance of the witnesses.\<close>

definition ref_server :: "nat server" where
  "ref_server = \<lparr>sv_clients = Map.empty, sv_hb = 0, sv_hb_index = 0, sv_last_hb_instant = 1,
     sv_crypto_config = ref_config\<rparr>"

lemma ref_connect: "connect_callback ref_crates id ref_config = Inr (ref_codec, ref_codec, ref_server)"
  by (simp add: connect_callback_def and_then_def ref_codec_new ref_server_def)

lemma server_rel_init:
  "connect_callback L clock crypto = Inr (rd, wr, s) \<Longrightarrow> server_rel s [] []"
  by (auto simp: connect_callback_def and_then_def server_rel_def split: sum.splits)

text \<open>
  C10: the actor \<open>connect_callback\<close> creates multiplexes and routes faithfully. After the messages it has
  handled it has written exactly the requests given to it, in order, interleaved with heartbeats
  of identifier 0 numbered 1, 2, 3, ... (modulo \<open>2 ^ 32\<close>); each response with a non-zero
  identifier went, in order, to the actor registered last for that identifier and to no other,
  as the connector response it stands for. It stops only when the response stream ended.
\<close>

theorem server_multiplexes:
  assumes "connect_callback L clock0 crypto = Inr (rd, wr, s0)"
    and "run_actor (server_handle checks) stops_server s0 ms = (os, oc, s)"
  shows "\<exists>calls rest. ms = calls @ rest \<and> requests_of os = written 0 (map snd calls) \<and>
    sends_of os = routed Map.empty (map snd calls) \<and>
    sv_clients s = registered Map.empty (map snd calls) \<and>
    sv_hb_index s = word_of_nat (beats (map snd calls)) \<and>
    (oc = Running \<longrightarrow> rest = []) \<and> (oc = Stopped \<longrightarrow> StopServer \<in> set os)"
proof -
  from sva.run_keeps [OF server_rel_init [OF assms(1)] assms(2)] obtain calls rest where
    "ms = calls @ rest" "server_rel s calls os" "oc = Running \<longrightarrow> rest = []"
    "oc = Stopped \<longrightarrow> list_ex stops_server os" by auto
  moreover have "list_ex stops_server os \<Longrightarrow> StopServer \<in> set os"
    by (auto simp: list_ex_iff elim: stops_server.elims)
  ultimately show ?thesis
    by (intro exI [of _ calls] exI [of _ rest]) (auto simp: server_rel_def Let_def)
qed

theorem server_multiplexes_witness:
  "\<exists>calls rest. [(id :: clock, SVConnected 40000 (7 :: nat)), (id, SVHeartbeat),
       (id, SVResponse (proxy_response_new 40000 (PTData [1])))] = calls @ rest \<and>
    requests_of [StartClient 40000 7, WriteRequest (proxy_request_new 0 (PTHeartbeat 1)),
      SendClient (7 :: nat) (CRData [1])] = written 0 (map snd calls) \<and>
    sends_of [StartClient 40000 7, WriteRequest (proxy_request_new 0 (PTHeartbeat 1)),
      SendClient (7 :: nat) (CRData [1])] = routed Map.empty (map snd calls) \<and>
    sv_clients (ref_server\<lparr>sv_clients := [40000 \<mapsto> 7], sv_hb_index := 1, sv_last_hb_instant := 0\<rparr>) =
      registered Map.empty (map snd calls) \<and>
    sv_hb_index (ref_server\<lparr>sv_clients := [40000 \<mapsto> 7], sv_hb_index := 1, sv_last_hb_instant := 0\<rparr>) =
      word_of_nat (beats (map snd calls)) \<and>
    (Running = Running \<longrightarrow> rest = []) \<and>
    (Running = Stopped \<longrightarrow> StopServer \<in> set [StartClient 40000 7,
      WriteRequest (proxy_request_new 0 (PTHeartbeat 1)), SendClient (7 :: nat) (CRData [1])])"
  by (rule server_multiplexes [where checks = True, OF ref_connect])
    (simp add: run_actor.simps server_handle_connected_def server_handle_heartbeat_def add_assign_def
      handle_response_cases proxy_response_new_def ref_server_def Let_def)

lemma server_silent_aux:
  assumes "run_actor (server_handle checks) stops_server s ms = (os, oc, t)"
    and "\<forall>(c, m) \<in> set ms. hb + from_secs 15 < c 0 \<and> m \<noteq> SVFinished \<and>
      \<not> (\<exists>r i. m = SVResponse r \<and> prs_uuid r = 0 \<and> prs_response r = PTHeartbeat i)"
    and "sv_hb s = hb"
  shows "SendHeartbeat \<notin> set os \<and> oc \<noteq> Stopped \<and> sv_hb t = hb"
  using assms
proof (induction ms arbitrary: s os)
  case (Cons x ms)
  obtain c m where x: "x = (c, m)" by (cases x)
  show ?case
  proof (cases "server_handle checks c s m")
    case (Inl f)
    with Cons.prems show ?thesis by (auto simp: x run_actor.simps(2))
  next
    case (Inr r)
    then obtain s' os' where r: "server_handle checks c s m = Inr (s', os')" by (cases r) auto
    have quiet: "SendHeartbeat \<notin> set os' \<and> \<not> list_ex stops_server os' \<and> sv_hb s' = hb"
    proof (cases m)
      case (SVResponse q)
      with r Cons.prems(2,3) show ?thesis
        by (auto simp: x handle_response_cases split: if_splits proxy_transfer.splits option.splits)
    next
      case SVTick
      with r Cons.prems(2,3) show ?thesis by (auto simp: x server_tick_def bind_eq_Some_conv duration_since_def
          less_diff_conv add.commute split: if_splits)
    next
      case SVHeartbeat
      with r Cons.prems(2,3) show ?thesis
        by (auto simp: x server_handle_heartbeat_def Let_def bind_eq_Some_conv)
    qed (use r Cons.prems(2,3) in \<open>auto simp: x server_handle_request_def server_handle_connected_def\<close>)
    obtain qs where "run_actor (server_handle checks) stops_server s' ms = (qs, oc, t)" "os = os' @ qs"
      using Cons.prems(1) r quiet by (auto simp: x run_actor.simps(2) split: prod.splits)
    with Cons.IH [of s' qs] Cons.prems(2) quiet show ?thesis by auto
  qed
qed simp

text \<open>
  A dead tunnel is never given up. From 15 seconds after the last heartbeat answer on, while
  no further answer comes, no timer tick sends a heartbeat any more, and the actor does not stop:
  the branch that reports \<open>disconnecting\<close> disconnects nothing, and as no heartbeat is sent,
  none will be answered.
\<close>

theorem heartbeat_failure_never_disconnects:
  assumes "run_actor (server_handle checks) stops_server s ms = (os, oc, t)"
    and "\<forall>(c, m) \<in> set ms. sv_hb s + from_secs 15 < c 0 \<and> m \<noteq> SVFinished \<and>
      \<not> (\<exists>r i. m = SVResponse r \<and> prs_uuid r = 0 \<and> prs_response r = PTHeartbeat i)"
  shows "SendHeartbeat \<notin> set os \<and> oc \<noteq> Stopped \<and> sv_hb t = sv_hb s"
  using assms by (rule server_silent_aux) simp

theorem heartbeat_failure_never_disconnects_witness:
  "(SendHeartbeat :: nat server_effect) \<notin> set [WriteRequest (proxy_request_new 5 (PTData [1]))] \<and> Running \<noteq> Stopped \<and>
    sv_hb ref_server = sv_hb ref_server"
  by (rule heartbeat_failure_never_disconnects [where checks = True and
        ms = "[(\<lambda>n. from_secs 16, SVTick :: nat server_msg), (\<lambda>n. from_secs 17, SVRequest (proxy_request_new 5 (PTData [1])))]"])
    (simp_all add: run_actor.simps server_tick_def server_handle_request_def from_secs_def ref_server_def)

end
