(* ===== verification/Proxy_Client.thy ===== *)
theory Proxy_Client
  imports Actor Proxy_Message
begin

text \<open>
  The server-side end of the tunnel (\<open>just-proxy-lib/src/component/server.rs\<close>): the actor
  \<open>ProxyClient\<close> that opens a connection for each connect request, writes the data requests to
  their connections and sends the responses, and the futures it spawns: the resolver's
  completion and the reader of each connection. A connection's write half is an opaque \<open>'w\<close>.
\<close>

section \<open>State, effects and handlers\<close>

record 'w proxy_client =
  pcl_connections :: "u16 \<Rightarrow> 'w option"

text \<open>
  What a call reads from the system: whether the receiver of the response channel is alive
  (a send to a dropped receiver is an error), and the result of one \<open>write\<close>: the number of
  bytes taken, or \<open>None\<close> for an error, \<open>WouldBlock\<close> included.
\<close>

record 'w proxy_env =
  pe_receiver_alive :: bool
  pe_write :: "'w \<Rightarrow> bytes \<Rightarrow> nat option"

datatype 'w proxy_msg =
    PCResponse proxy_response
  | PCDead u16
  | PCEstablished u16 'w
  | PCRequest proxy_request
  | PCFinished

datatype 'w proxy_effect =
    SendResponse proxy_response
  | Wrote 'w bytes
  | Resolve u16 rstring
  | StopProxy

text \<open>\<open>self.write_sender.unbounded_send(msg).unwrap()\<close>\<close>

definition unbounded_send :: "'w proxy_env \<Rightarrow> proxy_response \<Rightarrow> 'w proxy_effect list option" where
  "unbounded_send env msg = (if pe_receiver_alive env then Some [SendResponse msg] else None)"

definition proxy_handle_response ::
    "'w proxy_env \<Rightarrow> ('w proxy_client, proxy_response, 'w proxy_effect) handler" where
  "proxy_handle_response env self msg = unwrap (do {
     os \<leftarrow> unbounded_send env msg;
     Some (self, os) })"

definition proxy_handle_dead ::
    "'w proxy_env \<Rightarrow> ('w proxy_client, u16, 'w proxy_effect) handler" where
  "proxy_handle_dead env self uuid =
     (let self = self\<lparr>pcl_connections := (pcl_connections self)(uuid := None)\<rparr> in
      unwrap (do {
        os \<leftarrow> unbounded_send env (proxy_response_new uuid (PTResponse RTAbort));
        Some (self, os) }))"

definition proxy_handle_established ::
    "'w proxy_env \<Rightarrow> ('w proxy_client, u16 \<times> 'w, 'w proxy_effect) handler" where
  "proxy_handle_established env self msg =
     (case msg of (uuid, writer) \<Rightarrow>
        (let self = self\<lparr>pcl_connections := (pcl_connections self)(uuid \<mapsto> writer)\<rparr> in
         unwrap (do {
           os \<leftarrow> unbounded_send env (proxy_response_new uuid (PTResponse RTSucceeded));
           Some (self, os) })))"

definition proxy_handle_request ::
    "'w proxy_env \<Rightarrow> ('w proxy_client, proxy_request, 'w proxy_effect) handler" where
  "proxy_handle_request env self item = unwrap
     (let uuid = prq_uuid item; request = prq_request item in
      case request of
        PTRequestAddr addr \<Rightarrow> Some (self, [Resolve uuid addr])
      | PTData data \<Rightarrow>
          (case pcl_connections self uuid of
             Some conn \<Rightarrow>
               (case pe_write env conn data of
                  Some n \<Rightarrow> Some (self, [Wrote conn (take n data)])
                | None \<Rightarrow> Some (self\<lparr>pcl_connections := (pcl_connections self)(uuid := None)\<rparr>, []))
           | None \<Rightarrow> None)
      | PTResponse _ \<Rightarrow> None
      | PTHeartbeat index \<Rightarrow> do {
          os \<leftarrow> unbounded_send env (proxy_response_new uuid (PTHeartbeat index));
          Some (self, os) })"

definition proxy_finished :: "('w proxy_client, unit, 'w proxy_effect) handler" where
  "proxy_finished self _ = Inr (self, [StopProxy])"

fun proxy_client_handle ::
    "'w proxy_env \<Rightarrow> ('w proxy_client, 'w proxy_msg, 'w proxy_effect) handler" where
  "proxy_client_handle env self (PCResponse msg) = proxy_handle_response env self msg"
| "proxy_client_handle env self (PCDead uuid) = proxy_handle_dead env self uuid"
| "proxy_client_handle env self (PCEstablished uuid w) = proxy_handle_established env self (uuid, w)"
| "proxy_client_handle env self (PCRequest item) = proxy_handle_request env self item"
| "proxy_client_handle env self PCFinished = proxy_finished self ()"

fun stops_proxy :: "'w proxy_effect \<Rightarrow> bool" where
  "stops_proxy StopProxy = True"
| "stops_proxy _ = False"

section \<open>The spawned futures\<close>

text \<open>
  How the resolver's connect ends: a connection, the resolver's timeout, another resolver
  error, or an error of the resolver's mailbox. The completion sends messages to the actor and
  may leave a reader running.
\<close>

datatype 'w resolved = ConnectedTo 'w | ResolverTimeout | ResolverError | MailboxFailed

definition resolver_done :: "u16 \<Rightarrow> 'w resolved \<Rightarrow> 'w proxy_msg list \<times> bool" where
  "resolver_done uuid result =
     (case result of
        ConnectedTo w \<Rightarrow> ([PCEstablished uuid w], True)
      | ResolverTimeout \<Rightarrow> ([PCResponse (proxy_response_new uuid (PTResponse RTTimeout))], False)
      | ResolverError \<Rightarrow> ([PCResponse (proxy_response_new uuid (PTResponse RTConnectionRefused))], False)
      | MailboxFailed \<Rightarrow> ([PCResponse (proxy_response_new uuid (PTResponse RTConnectionRefused))], False))"

text \<open>
  One step of a reader: a piece of data, a read error, or the end of the stream, of which the
  actor is not told. The reader goes on only after data.
\<close>

datatype read_event = ReadData bytes | ReadError | ReadEof

definition reader_step :: "u16 \<Rightarrow> read_event \<Rightarrow> 'w proxy_msg list \<times> bool" where
  "reader_step uuid ev =
     (case ev of
        ReadData bytes \<Rightarrow> ([PCResponse (proxy_response_new uuid (PTData bytes))], True)
      | ReadError \<Rightarrow> ([PCDead uuid], False)
      | ReadEof \<Rightarrow> ([], False))"

section \<open>What the actor does with a history\<close>

text \<open>The responses a message leads to, whatever the state.\<close>

fun replies :: "'w proxy_msg \<Rightarrow> proxy_response list" where
  "replies (PCResponse r) = [r]"
| "replies (PCDead u) = [proxy_response_new u (PTResponse RTAbort)]"
| "replies (PCEstablished u w) = [proxy_response_new u (PTResponse RTSucceeded)]"
| "replies (PCRequest q) =
     (case prq_request q of PTHeartbeat i \<Rightarrow> [proxy_response_new (prq_uuid q) (PTHeartbeat i)] | _ \<Rightarrow> [])"
| "replies PCFinished = []"

text \<open>The connections open after a history.\<close>

fun live :: "(u16 \<Rightarrow> 'w option) \<Rightarrow> ('w proxy_env \<times> 'w proxy_msg) list \<Rightarrow> u16 \<Rightarrow> 'w option" where
  "live m [] = m"
| "live m ((env, PCEstablished u w) # h) = live (m(u \<mapsto> w)) h"
| "live m ((env, PCDead u) # h) = live (m(u := None)) h"
| "live m ((env, PCRequest q) # h) =
     (case (prq_request q, m (prq_uuid q)) of
        (PTData d, Some w) \<Rightarrow>
          live (if pe_write env w d = None then m(prq_uuid q := None) else m) h
      | _ \<Rightarrow> live m h)"
| "live m (_ # h) = live m h"

text \<open>The bytes accepted by the connections, and the connects asked of the resolver.\<close>

fun delivered_to :: "(u16 \<Rightarrow> 'w option) \<Rightarrow> ('w proxy_env \<times> 'w proxy_msg) list \<Rightarrow> ('w \<times> bytes) list" where
  "delivered_to m [] = []"
| "delivered_to m ((env, PCEstablished u w) # h) = delivered_to (m(u \<mapsto> w)) h"
| "delivered_to m ((env, PCDead u) # h) = delivered_to (m(u := None)) h"
| "delivered_to m ((env, PCRequest q) # h) =
     (case (prq_request q, m (prq_uuid q)) of
        (PTData d, Some w) \<Rightarrow>
          (case pe_write env w d of
             None \<Rightarrow> delivered_to (m(prq_uuid q := None)) h
           | Some n \<Rightarrow> (w, take n d) # delivered_to m h)
      | _ \<Rightarrow> delivered_to m h)"
| "delivered_to m (_ # h) = delivered_to m h"

fun connects :: "'w proxy_msg \<Rightarrow> (u16 \<times> rstring) list" where
  "connects (PCRequest q) = (case prq_request q of PTRequestAddr a \<Rightarrow> [(prq_uuid q, a)] | _ \<Rightarrow> [])"
| "connects _ = []"

fun responses_of :: "'w proxy_effect list \<Rightarrow> proxy_response list" where
  "responses_of [] = []"
| "responses_of (SendResponse r # os) = r # responses_of os"
| "responses_of (_ # os) = responses_of os"

fun writes_of :: "'w proxy_effect list \<Rightarrow> ('w \<times> bytes) list" where
  "writes_of [] = []"
| "writes_of (Wrote w d # os) = (w, d) # writes_of os"
| "writes_of (_ # os) = writes_of os"

fun resolves_of :: "'w proxy_effect list \<Rightarrow> (u16 \<times> rstring) list" where
  "resolves_of [] = []"
| "resolves_of (Resolve u a # os) = (u, a) # resolves_of os"
| "resolves_of (_ # os) = resolves_of os"

lemma proxy_outputs_append [simp]:
  "responses_of (os @ qs) = responses_of os @ responses_of qs"
  "writes_of (os @ qs) = writes_of os @ writes_of qs"
  "resolves_of (os @ qs) = resolves_of os @ resolves_of qs"
  by (induction os rule: responses_of.induct) auto

lemma proxy_history_append:
  "live m (h @ k) = live (live m h) k"
  "delivered_to m (h @ k) = delivered_to m h @ delivered_to (live m h) k"
  by (induction m h rule: live.induct) (auto split: proxy_transfer.splits option.splits)

definition proxy_client_rel ::
    "'w proxy_client \<Rightarrow> ('w proxy_env \<times> 'w proxy_msg) list \<Rightarrow> 'w proxy_effect list \<Rightarrow> bool" where
  "proxy_client_rel s h os \<longleftrightarrow>
     pcl_connections s = live Map.empty h \<and>
     responses_of os = concat (map (replies \<circ> snd) h) \<and>
     writes_of os = delivered_to Map.empty h \<and>
     resolves_of os = concat (map (connects \<circ> snd) h)"

text \<open>What a request does, on every branch.\<close>

lemma handle_request_cases:
  "proxy_handle_request env s q =
     (case prq_request q of
        PTRequestAddr a \<Rightarrow> Inr (s, [Resolve (prq_uuid q) a])
      | PTResponse r \<Rightarrow> Inl Panic
      | PTHeartbeat i \<Rightarrow>
          (if pe_receiver_alive env
           then Inr (s, [SendResponse (proxy_response_new (prq_uuid q) (PTHeartbeat i))]) else Inl Panic)
      | PTData d \<Rightarrow>
          (case pcl_connections s (prq_uuid q) of
             None \<Rightarrow> Inl Panic
           | Some w \<Rightarrow>
               (case pe_write env w d of
                  Some n \<Rightarrow> Inr (s, [Wrote w (take n d)])
                | None \<Rightarrow> Inr (s\<lparr>pcl_connections := (pcl_connections s)(prq_uuid q := None)\<rparr>, []))))"
  by (simp add: proxy_handle_request_def unbounded_send_def Let_def
      split: proxy_transfer.splits option.splits)

lemmas proxy_handlers = proxy_handle_response_def proxy_handle_dead_def proxy_handle_established_def
  proxy_finished_def unbounded_send_def Let_def

lemma proxy_client_step:
  assumes "proxy_client_rel s h os" and "proxy_client_handle env s m = Inr (s', qs)"
  shows "proxy_client_rel s' (h @ [(env, m)]) (os @ qs)"
proof (cases m)
  case (PCRequest q)
  with assms show ?thesis
    by (auto simp: proxy_client_rel_def proxy_history_append handle_request_cases
        split: proxy_transfer.splits option.splits if_splits)
qed (use assms in \<open>auto simp: proxy_client_rel_def proxy_history_append proxy_handlers split: if_splits\<close>)

interpretation pca: actor "\<lambda>_ :: unit. proxy_client_handle" stops_proxy "\<lambda>_. proxy_client_rel"
  by unfold_locales (rule proxy_client_step)

section \<open>Properties\<close>

definition proxy_client_new :: "'w proxy_client" where
  "proxy_client_new = \<lparr>pcl_connections = Map.empty\<rparr>"

lemma proxy_client_rel_init: "proxy_client_rel proxy_client_new [] []"
  by (simp add: proxy_client_rel_def proxy_client_new_def)

lemma stops_proxy_eq: "stops_proxy e \<longleftrightarrow> e = StopProxy"
  by (cases e) simp_all

lemma stops_proxy_iff: "list_ex stops_proxy os \<longleftrightarrow> StopProxy \<in> set os"
  by (auto simp: list_ex_iff stops_proxy_eq)

text \<open>
  C11: after the messages it has handled, the actor has sent exactly the responses those
  messages stand for, in order (a read piece as data, a dead connection as an abort, an
  established one as a success, a heartbeat as its echo under its own identifier and index);
  asked the resolver for exactly the addresses requested; and each accepted write went, in
  order, to the connection open for that identifier at that time, as a prefix of the request's
  data. Exactly the connections established and neither dead nor failed in a write are open.
\<close>

theorem proxy_client_serves:
  assumes "run_actor proxy_client_handle stops_proxy proxy_client_new ms = (os, oc, s)"
  shows "\<exists>calls rest. ms = calls @ rest \<and>
    responses_of os = concat (map (replies \<circ> snd) calls) \<and>
    resolves_of os = concat (map (connects \<circ> snd) calls) \<and>
    writes_of os = delivered_to Map.empty calls \<and>
    pcl_connections s = live Map.empty calls \<and>
    (oc = Running \<longrightarrow> rest = []) \<and> (oc = Stopped \<longrightarrow> StopProxy \<in> set os)"
proof -
  from pca.run_keeps [OF proxy_client_rel_init assms] obtain calls rest where
    "ms = calls @ rest" "proxy_client_rel s calls os" "oc = Running \<longrightarrow> rest = []"
    "oc = Stopped \<longrightarrow> list_ex stops_proxy os" by auto
  then show ?thesis
    by (intro exI [of _ calls] exI [of _ rest]) (auto simp: proxy_client_rel_def stops_proxy_iff)
qed

text \<open>An environment in which every system call succeeds, for the witnesses.\<close>

definition ref_env :: "nat proxy_env" where
  "ref_env = \<lparr>pe_receiver_alive = True, pe_write = (\<lambda>w d. Some (length d))\<rparr>"

definition failing_env :: "nat proxy_env" where
  "failing_env = ref_env\<lparr>pe_write := (\<lambda>w d. None)\<rparr>"

definition proxy_trace :: "(nat proxy_env \<times> nat proxy_msg) list" where
  "proxy_trace = [(ref_env, PCRequest (proxy_request_new 9 (PTRequestAddr [97]))),
     (ref_env, PCEstablished 9 3), (ref_env, PCRequest (proxy_request_new 9 (PTData [1, 2]))),
     (ref_env, PCResponse (proxy_response_new 9 (PTData [5])))]"

definition proxy_trace_effects :: "nat proxy_effect list" where
  "proxy_trace_effects = [Resolve 9 [97], SendResponse (proxy_response_new 9 (PTResponse RTSucceeded)),
     Wrote 3 [1, 2], SendResponse (proxy_response_new 9 (PTData [5]))]"

theorem proxy_client_serves_witness:
  "\<exists>calls rest. proxy_trace = calls @ rest \<and>
    responses_of proxy_trace_effects =
      concat (map (replies \<circ> snd) calls) \<and>
    resolves_of proxy_trace_effects =
      concat (map (connects \<circ> snd) calls) \<and>
    writes_of proxy_trace_effects = delivered_to Map.empty calls \<and>
    pcl_connections \<lparr>pcl_connections = [9 \<mapsto> 3]\<rparr> = live Map.empty calls \<and>
    (Running = Running \<longrightarrow> rest = []) \<and>
    (Running = Stopped \<longrightarrow> StopProxy \<in> set proxy_trace_effects)"
  by (rule proxy_client_serves)
    (simp add: run_actor.simps proxy_trace_def proxy_trace_effects_def ref_env_def proxy_handlers handle_request_cases
      proxy_request_new_def proxy_client_new_def)

text \<open>
  What crashes a call: data for an identifier without an open connection, a response sent as
  a request, or having a response to send when the tunnel's writer is gone.
\<close>

definition offence :: "'w proxy_env \<Rightarrow> (u16 \<Rightarrow> 'w option) \<Rightarrow> 'w proxy_msg \<Rightarrow> bool" where
  "offence env m msg \<longleftrightarrow> replies msg \<noteq> [] \<and> \<not> pe_receiver_alive env \<or>
     (\<exists>q. msg = PCRequest q \<and> ((\<exists>r. prq_request q = PTResponse r) \<or>
       (\<exists>d. prq_request q = PTData d) \<and> m (prq_uuid q) = None))"

fun offends :: "(u16 \<Rightarrow> 'w option) \<Rightarrow> ('w proxy_env \<times> 'w proxy_msg) list \<Rightarrow> bool" where
  "offends m [] = False"
| "offends m ((env, msg) # h) =
     (msg \<noteq> PCFinished \<and> (offence env m msg \<or> offends (live m [(env, msg)]) h))"

lemma proxy_crash_aux:
  "crashes (run_actor proxy_client_handle stops_proxy s ms) \<longleftrightarrow> offends (pcl_connections s) ms"
proof (induction ms arbitrary: s)
  case (Cons x ms)
  obtain env m where x: "x = (env, m)" by (cases x)
  show ?case
  proof (cases m)
    case (PCRequest q)
    with Cons.IH show ?thesis
      by (cases "prq_request q"; cases "pcl_connections s (prq_uuid q)")
        (auto simp: x offence_def handle_request_cases fun_upd_def split: option.splits)
  qed (use Cons.IH in \<open>auto simp: x offence_def proxy_handlers fun_upd_def\<close>)
qed (simp add: crashes_def)

lemma prq_new [simp]:
  "prq_uuid (proxy_request_new u t) = u" "prq_request (proxy_request_new u t) = t"
  by (simp_all add: proxy_request_new_def split: prod.splits)

text \<open>
  C36: a write that fails, if only because the socket's buffer is full (\<open>WouldBlock\<close>), silently
  forgets the connection: the peer is sent nothing, and the next data the application sends on
  that connection, when no new one was established under its identifier, crashes the actor.
\<close>

theorem failed_write_crashes_later:
  assumes "pcl_connections s u = Some w" and "pe_write env w d = None"
    and "\<forall>(e, m) \<in> set between. \<forall>v. m \<noteq> PCEstablished u v" and "PCFinished \<notin> snd ` set between"
  shows "proxy_client_handle env s (PCRequest (proxy_request_new u (PTData d))) =
      Inr (s\<lparr>pcl_connections := (pcl_connections s)(u := None)\<rparr>, []) \<and>
    crashes (run_actor proxy_client_handle stops_proxy s
      ((env, PCRequest (proxy_request_new u (PTData d))) # between @
       [(env', PCRequest (proxy_request_new u (PTData d')))]))"
proof
  show h: "proxy_client_handle env s (PCRequest (proxy_request_new u (PTData d))) =
      Inr (s\<lparr>pcl_connections := (pcl_connections s)(u := None)\<rparr>, [])"
    using assms(1,2) by (simp add: handle_request_cases)
  have "offends m (between @ [(env', PCRequest (proxy_request_new u (PTData d')))])" if "m u = None" for m
    using that assms(3,4)
  proof (induction between arbitrary: m)
    case (Cons x xs)
    obtain e msg where x: "x = (e, msg)" by (cases x)
    have "live m [(e, msg)] u = None"
      using Cons.prems by (cases msg) (auto simp: x split: proxy_transfer.splits option.splits)
    with Cons show ?case by (auto simp: x)
  qed (simp add: offence_def)
  then show "crashes (run_actor proxy_client_handle stops_proxy s
      ((env, PCRequest (proxy_request_new u (PTData d))) # between @
       [(env', PCRequest (proxy_request_new u (PTData d')))]))"
    using h by (simp add: proxy_crash_aux assms)
qed

theorem failed_write_crashes_later_witness:
  "proxy_client_handle failing_env \<lparr>pcl_connections = [9 \<mapsto> 3]\<rparr> (PCRequest (proxy_request_new 9 (PTData [1]))) =
      Inr (\<lparr>pcl_connections = [9 \<mapsto> 3]\<rparr>\<lparr>pcl_connections :=
        (pcl_connections \<lparr>pcl_connections = [9 \<mapsto> 3]\<rparr>)(9 := None)\<rparr>, []) \<and>
    crashes (run_actor proxy_client_handle stops_proxy \<lparr>pcl_connections = [9 \<mapsto> 3]\<rparr>
      ((failing_env, PCRequest (proxy_request_new 9 (PTData [1]))) #
       [(ref_env, PCResponse (proxy_response_new 9 (PTData [5])))] @
       [(ref_env, PCRequest (proxy_request_new 9 (PTData [2])))]))"
  by (rule failed_write_crashes_later [where w = 3]) (simp_all add: failing_env_def ref_env_def)

end
