(* ===== verification/Proxy_Node.thy ===== *)
theory Proxy_Node
  imports Proxy_Client "HOL-Library.Multiset"
begin

text \<open>
  The server end as a whole: the actor, its mailbox, the connects its resolver is working on and
  the readers of its connections (\<open>just-proxy-lib/src/component/server.rs\<close>), as a state machine
  whose events are a request decoded from the tunnel, the delivery of the mailbox's head, the end
  of a connect, a step of a reader, and the end of the request stream, which stops the actor. The events interleave in any order. The invariants say
  what the client is told, whatever the interleaving.
\<close>

section \<open>The state machine\<close>

record 'w node =
  nd_actor :: "'w proxy_client"
  nd_mailbox :: "'w proxy_msg list"
  nd_resolving :: "u16 list"
  nd_readers :: "u16 list"
  nd_sent :: "proxy_response list"
  nd_written :: "(u16 \<times> 'w \<times> bytes) list"
  nd_stopped :: bool

datatype 'w node_event =
    NRequest "'w proxy_env" proxy_request
  | NMailbox "'w proxy_env"
  | NResolved u16 "'w resolved"
  | NRead u16 read_event
  | NFinished "'w proxy_env"

definition node_new :: "'w node" where
  "node_new = \<lparr>nd_actor = proxy_client_new, nd_mailbox = [], nd_resolving = [], nd_readers = [],
     nd_sent = [], nd_written = [], nd_stopped = False\<rparr>"

text \<open>
  A call of the actor: its responses go to the channel, its connects to the resolver, its writes
  to the connections. \<open>nd_written\<close> logs the writes with the identifier they were made for. An actor
  that has stopped is called no more; what its readers still send it stays unread.
\<close>

fun msg_uuid :: "'w proxy_msg \<Rightarrow> u16" where
  "msg_uuid (PCRequest q) = prq_uuid q"
| "msg_uuid (PCResponse r) = prs_uuid r"
| "msg_uuid (PCDead u) = u"
| "msg_uuid (PCEstablished u w) = u"
| "msg_uuid PCFinished = 0"

definition node_call :: "'w proxy_env \<Rightarrow> 'w proxy_msg \<Rightarrow> 'w node \<Rightarrow> 'w node option" where
  "node_call env m n =
     (if nd_stopped n then None
      else case proxy_client_handle env (nd_actor n) m of
        Inl f \<Rightarrow> None
      | Inr (a, os) \<Rightarrow> Some (n\<lparr>nd_actor := a, nd_sent := nd_sent n @ responses_of os,
            nd_resolving := nd_resolving n @ map fst (resolves_of os),
            nd_written := nd_written n @ map (Pair (msg_uuid m)) (writes_of os),
            nd_stopped := list_ex stops_proxy os\<rparr>))"

text \<open>\<open>None\<close>: the event cannot happen, or it crashes the actor.\<close>

fun node_next :: "'w node \<Rightarrow> 'w node_event \<Rightarrow> 'w node option" where
  "node_next n (NRequest env q) = node_call env (PCRequest q) n"
| "node_next n (NMailbox env) =
     (case nd_mailbox n of [] \<Rightarrow> None | m # ms \<Rightarrow> node_call env m (n\<lparr>nd_mailbox := ms\<rparr>))"
| "node_next n (NResolved u result) =
     (if u \<in> set (nd_resolving n)
      then (case resolver_done u result of (ms, reads) \<Rightarrow>
        Some (n\<lparr>nd_mailbox := nd_mailbox n @ ms, nd_resolving := remove1 u (nd_resolving n),
                nd_readers := (if reads then nd_readers n @ [u] else nd_readers n)\<rparr>))
      else None)"
| "node_next n (NRead u ev) =
     (if u \<in> set (nd_readers n)
      then (case reader_step u ev of (ms, goes_on) \<Rightarrow>
        Some (n\<lparr>nd_mailbox := nd_mailbox n @ ms,
                nd_readers := (if goes_on then nd_readers n else remove1 u (nd_readers n))\<rparr>))
      else None)"
| "node_next n (NFinished env) = node_call env PCFinished n"

inductive node_run :: "'w node_event list \<Rightarrow> 'w node \<Rightarrow> bool" where
  start: "node_run [] node_new"
| step: "node_run es n \<Longrightarrow> node_next n e = Some n' \<Longrightarrow> node_run (es @ [e]) n'"

fun node_exec :: "'w node \<Rightarrow> 'w node_event list \<Rightarrow> 'w node option" where
  "node_exec n [] = Some n"
| "node_exec n (e # es) = Option.bind (node_next n e) (\<lambda>n'. node_exec n' es)"

lemma node_run_exec: "node_run es n \<Longrightarrow> node_exec n fs = Some n' \<Longrightarrow> node_run (es @ fs) n'"
proof (induction fs arbitrary: es n)
  case (Cons e fs)
  then obtain n1 where "node_next n e = Some n1" "node_exec n1 fs = Some n'"
    by (auto simp: bind_eq_Some_conv)
  with Cons.IH [of "es @ [e]" n1] Cons.prems(1) show ?case by (auto intro: node_run.step)
qed simp

lemmas node_run_start = node_run_exec [OF node_run.start, simplified]

section \<open>What the client is told\<close>

text \<open>
  The answers to connects among responses, the fate of the connections (data, or \<open>None\<close> for an
  abort), and the same read off the events.
\<close>

fun answers :: "proxy_response list \<Rightarrow> u16 list" where
  "answers [] = []"
| "answers (r # rs) =
     (case prs_response r of
        PTResponse RTAbort \<Rightarrow> answers rs | PTResponse _ \<Rightarrow> prs_uuid r # answers rs | _ \<Rightarrow> answers rs)"

fun stream_of :: "proxy_response list \<Rightarrow> (u16 \<times> bytes option) list" where
  "stream_of [] = []"
| "stream_of (r # rs) =
     (case prs_response r of
        PTData d \<Rightarrow> (prs_uuid r, Some d) # stream_of rs
      | PTResponse RTAbort \<Rightarrow> (prs_uuid r, None) # stream_of rs
      | _ \<Rightarrow> stream_of rs)"

fun asked :: "'w node_event list \<Rightarrow> u16 list" where
  "asked [] = []"
| "asked (NRequest env q # es) =
     (case prq_request q of PTRequestAddr a \<Rightarrow> prq_uuid q # asked es | _ \<Rightarrow> asked es)"
| "asked (_ # es) = asked es"

fun reads :: "'w node_event list \<Rightarrow> (u16 \<times> bytes option) list" where
  "reads [] = []"
| "reads (NRead u (ReadData d) # es) = (u, Some d) # reads es"
| "reads (NRead u ReadError # es) = (u, None) # reads es"
| "reads (_ # es) = reads es"

text \<open>Data only for connections a success was reported for.\<close>

fun succeeded :: "proxy_response list \<Rightarrow> u16 set" where
  "succeeded [] = {}"
| "succeeded (r # rs) =
     (if prs_response r = PTResponse RTSucceeded then insert (prs_uuid r) (succeeded rs) else succeeded rs)"

fun data_after_success :: "u16 set \<Rightarrow> proxy_response list \<Rightarrow> bool" where
  "data_after_success S [] = True"
| "data_after_success S (r # rs) =
     (((\<exists>d. prs_response r = PTData d) \<longrightarrow> prs_uuid r \<in> S) \<and>
      data_after_success (if prs_response r = PTResponse RTSucceeded then insert (prs_uuid r) S else S) rs)"

text \<open>What has been sent and what the messages waiting in the mailbox will send.\<close>

definition pending :: "'w node \<Rightarrow> proxy_response list" where
  "pending n = concat (map replies (nd_mailbox n))"

lemma told_append:
  "answers (rs @ qs) = answers rs @ answers qs"
  "stream_of (rs @ qs) = stream_of rs @ stream_of qs"
  "succeeded (rs @ qs) = succeeded rs \<union> succeeded qs"
  by (induction rs) (auto split: proxy_transfer.splits proxy_response_type.splits)

lemma events_append:
  "asked (es @ fs) = asked es @ asked fs" "reads (es @ fs) = reads es @ reads fs"
  by (induction es rule: reads.induct) (auto split: proxy_transfer.splits)

lemma data_after_success_append:
  "data_after_success S (rs @ qs) \<longleftrightarrow>
     data_after_success S rs \<and> data_after_success (S \<union> succeeded rs) qs"
  by (induction rs arbitrary: S) auto

section \<open>The invariant\<close>

definition node_inv :: "'w node_event list \<Rightarrow> 'w node \<Rightarrow> bool" where
  "node_inv es n \<longleftrightarrow>
     (let told = nd_sent n @ pending n in
      (\<forall>m \<in> set (nd_mailbox n). connects m = [] \<and> m \<noteq> PCFinished \<and> (\<forall>q. m \<noteq> PCRequest q)) \<and>
      mset (answers told) + mset (nd_resolving n) = mset (asked es) \<and>
      stream_of told = reads es \<and>
      data_after_success {} told \<and> set (nd_readers n) \<subseteq> succeeded told)"

lemma handle_outputs:
  assumes "proxy_client_handle env s m = Inr (s', os)"
  shows "responses_of os = replies m \<and> resolves_of os = connects m"
proof (cases m)
  case (PCRequest q)
  with assms show ?thesis
    by (auto simp: handle_request_cases split: proxy_transfer.splits option.splits if_splits)
qed (use assms in \<open>auto simp: proxy_handlers split: if_splits\<close>)

lemma node_call_Some:
  assumes "node_call env m n = Some n'"
  shows "nd_sent n' = nd_sent n @ replies m \<and>
    nd_resolving n' = nd_resolving n @ map fst (connects m) \<and>
    nd_mailbox n' = nd_mailbox n \<and> nd_readers n' = nd_readers n"
  using assms handle_outputs [of env "nd_actor n" m]
  by (auto simp: node_call_def split: if_splits sum.splits prod.splits)

lemma prs_new [simp]:
  "prs_uuid (proxy_response_new u t) = u" "prs_response (proxy_response_new u t) = t"
  by (simp_all add: proxy_response_new_def split: prod.splits)

lemma request_told:
  "answers (replies (PCRequest q)) = []" "stream_of (replies (PCRequest q)) = []"
  "succeeded (replies (PCRequest q)) = {}" "data_after_success S (replies (PCRequest q))"
  by (cases "prq_request q"; simp)+

lemma request_asked:
  "asked [NRequest (env :: 'w proxy_env) q] = map fst (connects (PCRequest q :: 'w proxy_msg))"
  by (cases "prq_request q") simp_all

lemma node_inv_request:
  assumes "node_inv es n" and "node_call env (PCRequest q) n = Some n'"
  shows "node_inv (es @ [NRequest env q]) n'"
  using assms(1) node_call_Some [OF assms(2)]
  by (simp add: node_inv_def Let_def pending_def told_append events_append request_told request_asked
      data_after_success_append union_assoc [symmetric] del: replies.simps connects.simps asked.simps)

lemma node_inv_mailbox:
  assumes "node_inv es n" and "nd_mailbox n = m # ms" and "node_call env m (n\<lparr>nd_mailbox := ms\<rparr>) = Some n'"
  shows "node_inv (es @ [NMailbox env]) n'"
  using assms(1,2) node_call_Some [OF assms(3)]
  by (simp add: node_inv_def Let_def pending_def told_append events_append)

lemma node_inv_finished:
  assumes "node_inv es n" and "node_call env PCFinished n = Some n'"
  shows "node_inv (es @ [NFinished env]) n'"
  using assms(1) node_call_Some [OF assms(2)]
  by (simp add: node_inv_def Let_def pending_def told_append events_append)

lemma node_inv_resolved:
  assumes "node_inv es n" and "u \<in> set (nd_resolving n)"
  shows "node_inv (es @ [NResolved u result]) (the (node_next n (NResolved u result)))"
proof -
  obtain R where R: "mset (nd_resolving n) = add_mset u R" "mset (remove1 u (nd_resolving n)) = R"
    using assms(2) by (metis mset_remove1 add_mset_remove_trivial insert_DiffM set_mset_mset)
  show ?thesis
    using assms R
    by (cases result) (simp_all add: node_inv_def Let_def pending_def resolver_done_def told_append
        events_append data_after_success_append del: mset_remove1, blast?)
qed

lemma node_inv_read:
  assumes "node_inv es n" and "u \<in> set (nd_readers n)"
  shows "node_inv (es @ [NRead u ev]) (the (node_next n (NRead u ev)))"
proof -
  have "set (remove1 u (nd_readers n)) \<subseteq> set (nd_readers n)" by (rule set_remove1_subset)
  with assms show ?thesis
    by (cases ev) (auto simp: node_inv_def Let_def pending_def reader_step_def told_append
        events_append data_after_success_append)
qed

lemma node_invariant: "node_run es n \<Longrightarrow> node_inv es n"
proof (induction rule: node_run.induct)
  case start
  show ?case by (simp add: node_inv_def node_new_def pending_def)
next
  case (step es n e n')
  show ?case
  proof (cases e)
    case (NRequest env q)
    with step show ?thesis by (auto intro: node_inv_request)
  next
    case (NMailbox env)
    with step show ?thesis by (auto intro: node_inv_mailbox split: list.splits)
  next
    case (NResolved u result)
    with step have "u \<in> set (nd_resolving n)" by (auto split: if_splits)
    from node_inv_resolved [OF step.IH this, of result] NResolved step.hyps(2) show ?thesis by simp
  next
    case (NRead u ev)
    with step have "u \<in> set (nd_readers n)" by (auto split: if_splits)
    from node_inv_read [OF step.IH this, of ev] NRead step.hyps(2) show ?thesis by simp
  next
    case (NFinished env)
    with step show ?thesis by (auto intro: node_inv_finished)
  qed
qed

section \<open>Properties\<close>

definition ref_events :: "nat node_event list" where
  "ref_events = [NRequest ref_env (proxy_request_new 9 (PTRequestAddr [97])), NResolved 9 (ConnectedTo 3),
     NRead 9 (ReadData [5]), NMailbox ref_env, NMailbox ref_env, NRead 9 (ReadData [6])]"

definition ref_node :: "nat node" where
  "ref_node = \<lparr>nd_actor = \<lparr>pcl_connections = [9 \<mapsto> 3]\<rparr>,
     nd_mailbox = [PCResponse (proxy_response_new 9 (PTData [6]))], nd_resolving = [], nd_readers = [9],
     nd_sent = [proxy_response_new 9 (PTResponse RTSucceeded), proxy_response_new 9 (PTData [5])],
     nd_written = [], nd_stopped = False\<rparr>"

lemma ref_node_run: "node_run ref_events ref_node"
  by (rule node_run_start)
    (simp add: ref_events_def ref_node_def node_new_def node_call_def handle_request_cases
      resolver_done_def reader_step_def proxy_handlers ref_env_def proxy_client_new_def)

lemma node_inv_told:
  assumes "node_run es n"
  shows "mset (answers (nd_sent n @ pending n)) + mset (nd_resolving n) = mset (asked es)"
    and "stream_of (nd_sent n @ pending n) = reads es"
    and "data_after_success {} (nd_sent n @ pending n)"
  using node_invariant [OF assms] by (simp_all add: node_inv_def Let_def)

text \<open>
  C12: no connect request is answered twice and none is forgotten. In every interleaving, the
  success, refusal and timeout responses sent are, per identifier, at most as many as the
  connect requests received; together with those waiting in the mailbox and the connects still
  being resolved they are exactly as many.
\<close>

theorem connects_answered_once:
  assumes "node_run es n"
  shows "mset (answers (nd_sent n)) \<subseteq># mset (asked es) \<and>
    mset (answers (nd_sent n)) + mset (answers (pending n)) + mset (nd_resolving n) = mset (asked es)"
  using node_inv_told(1) [OF assms] by (metis add.assoc mset_append mset_subset_eq_add_left told_append(1))

theorem connects_answered_once_witness:
  "mset (answers (nd_sent ref_node)) \<subseteq># mset (asked ref_events) \<and>
    mset (answers (nd_sent ref_node)) + mset (answers (pending ref_node)) + mset (nd_resolving ref_node) =
      mset (asked ref_events)"
  by (rule connects_answered_once [OF ref_node_run])

text \<open>
  The client is told of a connection before it gets data from it. In every interleaving of
  the resolver, the readers and the requests, each data response in the order sent is preceded by
  a success response for its identifier.
\<close>

theorem data_only_after_success:
  assumes "node_run es n" and "nd_sent n = before @ r # after" and "prs_response r = PTData d"
  shows "prs_uuid r \<in> succeeded before"
  using node_inv_told(3) [OF assms(1)] assms(2,3) by (simp add: data_after_success_append)

theorem data_only_after_success_witness:
  "prs_uuid (proxy_response_new 9 (PTData [5])) \<in> succeeded [proxy_response_new 9 (PTResponse RTSucceeded)]"
  by (rule data_only_after_success [OF ref_node_run, where after = "[]" and d = "[5]"])
    (simp_all add: ref_node_def)

text \<open>
  What is read is what is told. The data and abort responses sent, followed by those still
  in the mailbox, are exactly the pieces read from the connections and the read errors, in the
  order they happened, none lost, repeated or reordered, also across connections. The end of a
  connection's stream, which is no read error, leaves no trace among them.
\<close>

theorem reads_relayed:
  assumes "node_run es n"
  shows "stream_of (nd_sent n) @ stream_of (pending n) = reads es"
  using node_inv_told(2) [OF assms] by (simp add: told_append)

theorem reads_relayed_witness:
  "stream_of (nd_sent ref_node) @ stream_of (pending ref_node) = reads ref_events"
  by (rule reads_relayed [OF ref_node_run])

lemma mailbox_call:
  assumes "\<forall>q. m \<noteq> PCRequest q" and "m \<noteq> PCFinished" and "pe_receiver_alive env" and "\<not> nd_stopped n"
  shows "\<exists>n'. node_call env m n = Some n' \<and> \<not> nd_stopped n'"
  using assms by (cases m) (simp_all add: node_call_def proxy_handlers)

lemma drain_aux:
  assumes "node_run es n" and "pe_receiver_alive env" and "\<not> nd_stopped n"
  shows "\<exists>n'. node_run (es @ replicate (length (nd_mailbox n)) (NMailbox env)) n' \<and> nd_mailbox n' = [] \<and>
    nd_sent n' = nd_sent n @ pending n \<and> nd_resolving n' = nd_resolving n \<and> nd_readers n' = nd_readers n"
  using assms(1,3)
proof (induction "length (nd_mailbox n)" arbitrary: es n)
  case 0
  then show ?case by (auto simp: pending_def)
next
  case (Suc k)
  then obtain m ms where mb: "nd_mailbox n = m # ms" by (cases "nd_mailbox n") auto
  with node_invariant [OF Suc.prems(1)] have m: "connects m = []" "m \<noteq> PCFinished" "\<forall>q. m \<noteq> PCRequest q"
    by (auto simp: node_inv_def Let_def)
  from mailbox_call [OF m(3,2) assms(2), of "n\<lparr>nd_mailbox := ms\<rparr>"] Suc.prems(2) obtain n1 where
    n1: "node_call env m (n\<lparr>nd_mailbox := ms\<rparr>) = Some n1" and live: "\<not> nd_stopped n1" by auto
  note out = node_call_Some [OF n1]
  have run: "node_run (es @ [NMailbox env]) n1" using Suc.prems(1) by (rule node_run.step) (simp add: mb n1)
  have "k = length (nd_mailbox n1)" using Suc.hyps(2) out mb by simp
  from Suc.hyps(1) [OF this run live] out m(1) mb \<open>k = _\<close> show ?case
    by (auto simp: pending_def)
qed

text \<open>
  C13: nothing waits for ever. From every state reachable in any interleaving, connects being
  resolved or not, while the actor has not been stopped by the end of its request stream and the
  tunnel's writer lives, delivering the mailbox never crashes the actor and empties it after as many
  calls as it has messages. All that was waiting is then sent, and every connect request received
  has had its answer, but for exactly those still being resolved.
\<close>

theorem mailbox_drains:
  assumes "node_run es n" and "\<not> nd_stopped n" and "pe_receiver_alive env"
  shows "\<exists>n'. node_run (es @ replicate (length (nd_mailbox n)) (NMailbox env)) n' \<and> nd_mailbox n' = [] \<and>
    nd_sent n' = nd_sent n @ pending n \<and> nd_resolving n' = nd_resolving n \<and>
    mset (answers (nd_sent n')) + mset (nd_resolving n') = mset (asked es)"
proof -
  from drain_aux [OF assms(1,3,2)] obtain n' where
    "node_run (es @ replicate (length (nd_mailbox n)) (NMailbox env)) n'" "nd_mailbox n' = []"
    "nd_sent n' = nd_sent n @ pending n" "nd_resolving n' = nd_resolving n" by blast
  with node_inv_told(1) [OF assms(1)] show ?thesis by auto
qed

text \<open>A second connect is still being resolved while the first one's messages wait.\<close>

definition ref_waiting_events :: "nat node_event list" where
  "ref_waiting_events = [NRequest ref_env (proxy_request_new 9 (PTRequestAddr [97])),
     NRequest ref_env (proxy_request_new 8 (PTRequestAddr [98])), NResolved 9 (ConnectedTo 3),
     NRead 9 (ReadData [5])]"

definition ref_waiting :: "nat node" where
  "ref_waiting = \<lparr>nd_actor = \<lparr>pcl_connections = Map.empty\<rparr>,
     nd_mailbox = [PCEstablished 9 3, PCResponse (proxy_response_new 9 (PTData [5]))],
     nd_resolving = [8], nd_readers = [9], nd_sent = [], nd_written = [], nd_stopped = False\<rparr>"

lemma ref_waiting_run: "node_run ref_waiting_events ref_waiting"
  by (rule node_run_start)
    (simp add: ref_waiting_events_def ref_waiting_def node_new_def node_call_def handle_request_cases
      resolver_done_def reader_step_def proxy_handlers ref_env_def proxy_client_new_def)

theorem mailbox_drains_witness:
  "\<exists>n'. node_run (ref_waiting_events @ replicate (length (nd_mailbox ref_waiting)) (NMailbox ref_env)) n' \<and>
    nd_mailbox n' = [] \<and> nd_sent n' = nd_sent ref_waiting @ pending ref_waiting \<and>
    nd_resolving n' = nd_resolving ref_waiting \<and>
    mset (answers (nd_sent n')) + mset (nd_resolving n') = mset (asked ref_waiting_events)"
  by (rule mailbox_drains [OF ref_waiting_run]) (simp_all add: ref_env_def ref_waiting_def)

end
