(* ===== verification/Launch.thy ===== *)
theory Launch
  imports Client_Server Proxy_Client Proxy_Codec_Correct
begin

text \<open>
  How the two ends are started (\<open>just-proxy-lib/src/lib.rs\<close>, \<open>connector/tcp.rs\<close>): the options,
  the choice of the transport and the configuration that reaches the codecs, and what the
  configuration's options do (\<open>opt.rs\<close>). Opening sockets is the system's: \<open>listens a\<close> says
  whether the address \<open>a\<close> parses and can be bound.
\<close>

section \<open>Options and start-up\<close>

type_synonym i64 = "64 word"

record config =
  cf_quic :: quic_config
  cf_crypto :: resolved_crypto

record client_opt =
  co_socks_host :: rstring
  co_proxy_host :: rstring
  co_socks_port :: i64
  co_proxy_port :: i64
  co_protocol :: rstring
  co_config :: config

record server_opt =
  so_proxy_host :: rstring
  so_proxy_port :: i64
  so_protocol :: rstring
  so_config :: config

definition display_i64 :: "i64 \<Rightarrow> rstring" where
  "display_i64 i =
     (if sint i < 0 then rstr ''-'' @ dec_digits (nat (- sint i)) else dec_digits (nat (sint i)))"

definition launch_quic_config :: quic_config where
  "launch_quic_config =
     \<lparr>qc_stream_window_bidi = None, qc_idle_timeout = None, qc_stream_receive_window = None,
      qc_receive_window = None, qc_max_tlps = None, qc_packet_threshold = None,
      qc_time_threshold = None, qc_delayed_ack_timeout = None, qc_initial_rtt = None,
      qc_max_datagram_size = None, qc_initial_window = None, qc_minimum_window = None,
      qc_loss_reduction_factor = None, qc_presistent_cognestion_threshold = None,
      qc_local_cid_len = None\<rparr>"

definition launch_crypto_config :: crypto_config where
  "launch_crypto_config =
     \<lparr>cc_key = rstr ''12312'', cc_salt = rstr ''2121'', cc_crypto_method = rstr ''aes-256-gcm'',
      cc_digest_method = rstr ''sha256'', cc_digest_iteration = 1\<rparr>"

text \<open>\<open>crypto_config.convert().unwrap()\<close>\<close>

definition convert_unwrap :: "crypto_config \<Rightarrow> resolved_crypto option" where
  "convert_unwrap c = (case convert c of Inr (Inr r) \<Rightarrow> Some r | _ \<Rightarrow> None)"

datatype transport = TcpTransport | QuicTransport

text \<open>The transport used, the address connected to and the configuration handed on.\<close>

definition run_client :: "(rstring \<Rightarrow> bool) \<Rightarrow> client_opt \<Rightarrow> (transport \<times> rstring \<times> config) res" where
  "run_client listens opt = unwrap
     (let quic_config = launch_quic_config;
          crypto_config = launch_crypto_config;
          addr = co_socks_host opt @ rstr '':'' @ display_i64 (co_socks_port opt);
          proxy_address_str = co_proxy_host opt @ rstr '':'' @ display_i64 (co_proxy_port opt)
      in if \<not> listens addr then None
         else if co_protocol opt = rstr ''tcp'' then do {
           crypto \<leftarrow> convert_unwrap crypto_config;
           Some (TcpTransport, proxy_address_str, \<lparr>cf_quic = quic_config, cf_crypto = crypto\<rparr>) }
         else if co_protocol opt = rstr ''quic'' then do {
           crypto \<leftarrow> convert_unwrap crypto_config;
           Some (QuicTransport, proxy_address_str, \<lparr>cf_quic = quic_config, cf_crypto = crypto\<rparr>) }
         else None)"

definition run_server :: "server_opt \<Rightarrow> (transport \<times> rstring \<times> config) res" where
  "run_server opt = unwrap
     (let quic_config = launch_quic_config;
          crypto_config = launch_crypto_config;
          addr = so_proxy_host opt @ rstr '':'' @ display_i64 (so_proxy_port opt)
      in if so_protocol opt = rstr ''tcp'' then do {
           crypto \<leftarrow> convert_unwrap crypto_config;
           Some (TcpTransport, addr, \<lparr>cf_quic = quic_config, cf_crypto = crypto\<rparr>) }
         else if so_protocol opt = rstr ''quic'' then do {
           crypto \<leftarrow> convert_unwrap crypto_config;
           Some (QuicTransport, addr, \<lparr>cf_quic = quic_config, cf_crypto = crypto\<rparr>) }
         else None)"

text \<open>
  What the server's connectors create for an accepted client: the writer's and the reader's
  codec and the actor.
\<close>

definition accept_client ::
    "('ok, 'sk, 'x) crates_scheme \<Rightarrow> resolved_crypto \<Rightarrow>
     (('ok, 'sk) proxy_codec \<times> ('ok, 'sk) proxy_codec \<times> 'w proxy_client) res" where
  "accept_client L crypto =
     and_then (proxy_codec_new L crypto) (\<lambda>writer.
     and_then (proxy_codec_new L crypto) (\<lambda>reader.
     Inr (writer, reader, proxy_client_new)))"

section \<open>Properties\<close>

definition launch_crypto :: resolved_crypto where
  "launch_crypto =
     \<lparr>rc_key = rstr ''12312'', rc_salt = rstr ''2121'', rc_crypto_method = AES_256_GCM,
      rc_digest_method = SHA256, rc_digest_iteration = 1\<rparr>"

lemma convert_launch: "convert_unwrap launch_crypto_config = Some launch_crypto"
  by (simp add: convert_unwrap_def convert_def launch_crypto_config_def crypto_method_of_def
      digest_method_of_def launch_crypto_def rstr_def)

lemma run_client_crypto: "run_client listens co = Inr (t, a, c) \<Longrightarrow> cf_crypto c = launch_crypto"
  by (auto simp: run_client_def Let_def convert_launch split: if_splits)

lemma run_server_crypto: "run_server so = Inr (t, a, c) \<Longrightarrow> cf_crypto c = launch_crypto"
  by (auto simp: run_server_def Let_def convert_launch split: if_splits)

lemma launch_codec:
  assumes "ring_ok L"
  shows "\<exists>k. proxy_codec_new L launch_crypto = Inr k"
  by (rule codec_new_total [OF assms]) (simp add: launch_crypto_def)

text \<open>
  A client and a server that both start can talk to each other, whatever their options: the
  configurations they hand on resolve to the same key, and both codecs of both ends are built
  from it, without a panic, into one and the same codec value.
\<close>

theorem launched_ends_agree:
  assumes "ring_ok L" and "run_client listens co = Inr (t, a, c)" and "run_server so = Inr (t', a', c')"
  shows "\<exists>k s. connect_callback L clock (cf_crypto c) = Inr (k, k, s) \<and>
    accept_client L (cf_crypto c') = Inr (k, k, proxy_client_new)"
  using launch_codec [OF assms(1)] run_client_crypto [OF assms(2)] run_server_crypto [OF assms(3)]
  by (auto simp: connect_callback_def accept_client_def and_then_def)

definition ref_config_options :: config where
  "ref_config_options = \<lparr>cf_quic = launch_quic_config, cf_crypto = launch_crypto\<lparr>rc_key := [1, 2, 3]\<rparr>\<rparr>"

definition ref_client_opt :: client_opt where
  "ref_client_opt = \<lparr>co_socks_host = rstr ''h'', co_proxy_host = rstr ''p'', co_socks_port = 1,
     co_proxy_port = 2, co_protocol = rstr ''tcp'', co_config = ref_config_options\<rparr>"

definition ref_server_opt :: server_opt where
  "ref_server_opt = \<lparr>so_proxy_host = rstr ''p'', so_proxy_port = 2, so_protocol = rstr ''tcp'',
     so_config = ref_config_options\<rparr>"

lemma ref_launched:
  "run_client (\<lambda>a. True) ref_client_opt =
     Inr (TcpTransport, rstr ''p'' @ rstr '':'' @ display_i64 2,
       \<lparr>cf_quic = launch_quic_config, cf_crypto = launch_crypto\<rparr>)"
  "run_server ref_server_opt =
     Inr (TcpTransport, rstr ''p'' @ rstr '':'' @ display_i64 2,
       \<lparr>cf_quic = launch_quic_config, cf_crypto = launch_crypto\<rparr>)"
  by (simp_all add: run_client_def run_server_def ref_client_opt_def ref_server_opt_def Let_def convert_launch)

theorem launched_ends_agree_witness:
  "\<exists>k s. connect_callback ref_crates id (cf_crypto \<lparr>cf_quic = launch_quic_config, cf_crypto = launch_crypto\<rparr>) =
      Inr (k, k, s) \<and>
    accept_client ref_crates (cf_crypto \<lparr>cf_quic = launch_quic_config, cf_crypto = launch_crypto\<rparr>) =
      Inr (k, k, proxy_client_new)"
  by (rule launched_ends_agree [OF ref_ring_ok ref_launched])

text \<open>
  C39: the configuration a user supplies has no effect on either end: whatever key, salt,
  algorithms and QUIC parameters the options carry, the client and the server start with the
  same constants, whose key the source text gives away. What is left of the options is the
  protocol, which must be \<open>tcp\<close> or \<open>quic\<close>, and the addresses.
\<close>

theorem user_config_ignored:
  "run_client listens (co\<lparr>co_config := x\<rparr>) = run_client listens co \<and>
   run_server (so\<lparr>so_config := y\<rparr>) = run_server so \<and>
   (run_server so = Inl Panic \<longleftrightarrow> so_protocol so \<notin> {rstr ''tcp'', rstr ''quic''}) \<and>
   (run_client listens co = Inl Panic \<longleftrightarrow>
      \<not> (listens (co_socks_host co @ rstr '':'' @ display_i64 (co_socks_port co)) \<and>
         co_protocol co \<in> {rstr ''tcp'', rstr ''quic''}))"
  by (simp add: run_client_def run_server_def Let_def convert_launch)

section \<open>The options themselves\<close>

text \<open>
  C37: which configurations start a codec at all. Resolving a configuration and building the codec
  from it both succeed exactly for AES-256-GCM and ChaCha20-Poly1305, one of the five digests
  and a non-zero iteration count. The resolution also accepts \<open>aes-128-gcm\<close>: with a known digest and
  a non-zero iteration count it is the one method that resolves and then panics in the codec's
  constructor, which derives a key of 32 bytes for every algorithm.
\<close>

theorem config_starts_codec_iff:
  assumes "ring_ok L"
  shows "((\<exists>r k. convert cfg = Inr (Inr r) \<and> proxy_codec_new L r = Inr k) \<longleftrightarrow>
      cc_crypto_method cfg \<in> {rstr ''aes-256-gcm'', rstr ''chacha20_poly1305''} \<and>
      cc_digest_method cfg \<in> {rstr ''sha1'', rstr ''sha256'', rstr ''sha384'', rstr ''sha512'', rstr ''sha512_256''} \<and>
      cc_digest_iteration cfg \<noteq> 0) \<and>
    ((\<exists>r. convert cfg = Inr (Inr r) \<and> proxy_codec_new L r = Inl Panic) \<longleftrightarrow>
      cc_crypto_method cfg = rstr ''aes-128-gcm'' \<and>
      cc_digest_method cfg \<in> {rstr ''sha1'', rstr ''sha256'', rstr ''sha384'', rstr ''sha512'', rstr ''sha512_256''} \<and>
      cc_digest_iteration cfg \<noteq> 0)"
proof -
  have new: "(\<exists>k. proxy_codec_new L r = Inr k) \<longleftrightarrow> rc_crypto_method r \<noteq> AES_128_GCM" for r
    using codec_new_panics_aux [OF assms, of r] codec_new_total [OF assms, of r] by auto
  have digest: "(\<exists>d. digest_method_of n = Some d) \<longleftrightarrow>
      n \<in> {rstr ''sha1'', rstr ''sha256'', rstr ''sha384'', rstr ''sha512'', rstr ''sha512_256''}" for n
    by (auto simp: digest_method_of_def)
  have crypto: "(\<exists>m. crypto_method_of n = Some m \<and> m \<noteq> AES_128_GCM) \<longleftrightarrow>
      n \<in> {rstr ''aes-256-gcm'', rstr ''chacha20_poly1305''}" for n
    by (auto simp: crypto_method_of_def rstr_def)
  have crypto128: "crypto_method_of n = Some AES_128_GCM \<longleftrightarrow> n = rstr ''aes-128-gcm''" for n
    by (auto simp: crypto_method_of_def rstr_def)
  have "(\<exists>r k. convert cfg = Inr (Inr r) \<and> proxy_codec_new L r = Inr k) \<longleftrightarrow>
      (\<exists>m. crypto_method_of (cc_crypto_method cfg) = Some m \<and> m \<noteq> AES_128_GCM) \<and>
      (\<exists>d. digest_method_of (cc_digest_method cfg) = Some d) \<and> cc_digest_iteration cfg \<noteq> 0"
    using new by (auto simp: convert_def split: option.splits)
  moreover have "(\<exists>r. convert cfg = Inr (Inr r) \<and> proxy_codec_new L r = Inl Panic) \<longleftrightarrow>
      crypto_method_of (cc_crypto_method cfg) = Some AES_128_GCM \<and>
      (\<exists>d. digest_method_of (cc_digest_method cfg) = Some d) \<and> cc_digest_iteration cfg \<noteq> 0"
    by (auto simp: convert_def codec_new_panics_aux [OF assms] split: option.splits)
  ultimately show ?thesis by (simp only: digest crypto crypto128)
qed

theorem config_starts_codec_iff_witness:
  "((\<exists>r k. convert (launch_crypto_config\<lparr>cc_crypto_method := rstr ''aes-128-gcm''\<rparr>) = Inr (Inr r) \<and>
        proxy_codec_new ref_crates r = Inr k) \<longleftrightarrow>
      cc_crypto_method (launch_crypto_config\<lparr>cc_crypto_method := rstr ''aes-128-gcm''\<rparr>)
        \<in> {rstr ''aes-256-gcm'', rstr ''chacha20_poly1305''} \<and>
      cc_digest_method (launch_crypto_config\<lparr>cc_crypto_method := rstr ''aes-128-gcm''\<rparr>)
        \<in> {rstr ''sha1'', rstr ''sha256'', rstr ''sha384'', rstr ''sha512'', rstr ''sha512_256''} \<and>
      cc_digest_iteration (launch_crypto_config\<lparr>cc_crypto_method := rstr ''aes-128-gcm''\<rparr>) \<noteq> 0) \<and>
    ((\<exists>r. convert (launch_crypto_config\<lparr>cc_crypto_method := rstr ''aes-128-gcm''\<rparr>) = Inr (Inr r) \<and>
        proxy_codec_new ref_crates r = Inl Panic) \<longleftrightarrow>
      cc_crypto_method (launch_crypto_config\<lparr>cc_crypto_method := rstr ''aes-128-gcm''\<rparr>) = rstr ''aes-128-gcm'' \<and>
      cc_digest_method (launch_crypto_config\<lparr>cc_crypto_method := rstr ''aes-128-gcm''\<rparr>)
        \<in> {rstr ''sha1'', rstr ''sha256'', rstr ''sha384'', rstr ''sha512'', rstr ''sha512_256''} \<and>
      cc_digest_iteration (launch_crypto_config\<lparr>cc_crypto_method := rstr ''aes-128-gcm''\<rparr>) \<noteq> 0)"
  by (rule config_starts_codec_iff [OF ref_ring_ok])

definition set_or :: "'a option \<Rightarrow> 'a \<Rightarrow> 'a" where
  "set_or v dflt = (case v of None \<Rightarrow> dflt | Some x \<Rightarrow> x)"

text \<open>A field read after an override: the override's own, or another one.\<close>

lemma if_some_own: "(\<And>x c. f (S x c) = x) \<Longrightarrow> f (if_some v S c) = set_or v (f c)"
  by (simp add: if_some_def set_or_def split: option.splits)

lemma if_some_other: "(\<And>x c. f (S x c) = f c) \<Longrightarrow> f (if_some v S c) = f c"
  by (simp add: if_some_def split: option.splits)

lemmas if_some_fields =
  if_some_own [where f = qn_stream_window_bidi] if_some_other [where f = qn_stream_window_bidi]
  if_some_own [where f = qn_idle_timeout] if_some_other [where f = qn_idle_timeout]
  if_some_own [where f = qn_stream_receive_window] if_some_other [where f = qn_stream_receive_window]
  if_some_own [where f = qn_receive_window] if_some_other [where f = qn_receive_window]
  if_some_own [where f = qn_max_tlps] if_some_other [where f = qn_max_tlps]
  if_some_own [where f = qn_packet_threshold] if_some_other [where f = qn_packet_threshold]
  if_some_own [where f = qn_time_threshold] if_some_other [where f = qn_time_threshold]
  if_some_own [where f = qn_delayed_ack_timeout] if_some_other [where f = qn_delayed_ack_timeout]
  if_some_own [where f = qn_initial_rtt] if_some_other [where f = qn_initial_rtt]
  if_some_own [where f = qn_max_datagram_size] if_some_other [where f = qn_max_datagram_size]
  if_some_own [where f = qn_initial_window] if_some_other [where f = qn_initial_window]
  if_some_own [where f = qn_minimum_window] if_some_other [where f = qn_minimum_window]
  if_some_own [where f = qn_loss_reduction_factor] if_some_other [where f = qn_loss_reduction_factor]
  if_some_own [where f = qn_persistent_congestion_threshold] if_some_other [where f = qn_persistent_congestion_threshold]
  if_some_own [where f = qn_local_cid_len] if_some_other [where f = qn_local_cid_len]
  if_some_other [where f = quinn_config.more]

text \<open>
  Each QUIC option overrides its own parameter and no other: a parameter is the value set, or
  the library's default where none is set, and the library's other parameters stay.
\<close>

theorem quinn_config_overrides:
  "qn_stream_window_bidi (to_quinn_config d q) = set_or (qc_stream_window_bidi q) (qn_stream_window_bidi d) \<and>
   qn_idle_timeout (to_quinn_config d q) = set_or (qc_idle_timeout q) (qn_idle_timeout d) \<and>
   qn_stream_receive_window (to_quinn_config d q) = set_or (qc_stream_receive_window q) (qn_stream_receive_window d) \<and>
   qn_receive_window (to_quinn_config d q) = set_or (qc_receive_window q) (qn_receive_window d) \<and>
   qn_max_tlps (to_quinn_config d q) = set_or (qc_max_tlps q) (qn_max_tlps d) \<and>
   qn_packet_threshold (to_quinn_config d q) = set_or (qc_packet_threshold q) (qn_packet_threshold d) \<and>
   qn_time_threshold (to_quinn_config d q) = set_or (qc_time_threshold q) (qn_time_threshold d) \<and>
   qn_delayed_ack_timeout (to_quinn_config d q) = set_or (qc_delayed_ack_timeout q) (qn_delayed_ack_timeout d) \<and>
   qn_initial_rtt (to_quinn_config d q) = set_or (qc_initial_rtt q) (qn_initial_rtt d) \<and>
   qn_max_datagram_size (to_quinn_config d q) = set_or (qc_max_datagram_size q) (qn_max_datagram_size d) \<and>
   qn_initial_window (to_quinn_config d q) = set_or (qc_initial_window q) (qn_initial_window d) \<and>
   qn_minimum_window (to_quinn_config d q) = set_or (qc_minimum_window q) (qn_minimum_window d) \<and>
   qn_loss_reduction_factor (to_quinn_config d q) = set_or (qc_loss_reduction_factor q) (qn_loss_reduction_factor d) \<and>
   qn_persistent_congestion_threshold (to_quinn_config d q) = set_or (qc_presistent_cognestion_threshold q) (qn_persistent_congestion_threshold d) \<and>
   qn_local_cid_len (to_quinn_config d q) = set_or (qc_local_cid_len q) (qn_local_cid_len d) \<and>
   quinn_config.more (to_quinn_config d q) = quinn_config.more d"
  unfolding to_quinn_config_def Let_def by (simp add: if_some_fields)

end
