(* ===== verification/End_To_End.thy ===== *)
theory End_To_End
  imports Launch Proxy_Roundtrip Tunnel_Properties
begin

text \<open>
  The two ends of the tunnel together: what the client's actor writes is what the server's
  reader delivers, what the server's actor sends is what the client's reader delivers, and a
  heartbeat comes back. These compose the actors, the codecs, the framed readers and the start-up
  of both ends.
\<close>

section \<open>Messages that fit the tunnel\<close>

definition request_fits :: "proxy_request \<Rightarrow> bool" where
  "request_fits r \<longleftrightarrow> (\<exists>u t. r = proxy_request_new u t \<and> transfer_fits t)"

definition response_fits :: "proxy_response \<Rightarrow> bool" where
  "response_fits r \<longleftrightarrow> (\<exists>u t. r = proxy_response_new u t \<and> transfer_fits t)"

lemma small_fits [simp]: "transfer_fits (PTHeartbeat i)" "transfer_fits (PTResponse r)"
  by (simp_all add: transfer_fits_def)

lemma new_fits [simp]:
  "transfer_fits t \<Longrightarrow> request_fits (proxy_request_new u t)"
  "transfer_fits t \<Longrightarrow> response_fits (proxy_response_new u t)"
  by (auto simp: request_fits_def response_fits_def)

lemma written_fits:
  "\<forall>r. SVRequest r \<in> set ms \<longrightarrow> request_fits r \<Longrightarrow> r \<in> set (written n ms) \<Longrightarrow> request_fits r"
  by (induction n ms rule: written.induct) auto

lemma replies_fit:
  "\<forall>r. PCResponse r \<in> set ms \<longrightarrow> response_fits r \<Longrightarrow> r \<in> set (concat (map replies ms)) \<Longrightarrow> response_fits r"
proof (induction ms)
  case (Cons m ms)
  from Cons.prems(2) consider "r \<in> set (replies m)" | "r \<in> set (concat (map replies ms))" by auto
  then show ?case
  proof cases
    case 1
    show ?thesis
    proof (cases m)
      case (PCRequest q)
      with 1 show ?thesis by (cases "prq_request q") auto
    qed (use 1 Cons.prems(1) in auto)
  next
    case 2
    with Cons show ?thesis by auto
  qed
qed simp

section \<open>A codec built at both ends\<close>

lemma request_stream_through:
  assumes "crates_ok L" and "codec_ok L k" and "\<forall>r \<in> set rs. request_fits r"
    and "length rngs = length rs" and "\<forall>g \<in> set rngs. rng_ok g" and "contents dst = []"
  shows "\<exists>dst'. encode_all (proxy_request_encode L k) (zip rngs rs) dst = Inr dst' \<and>
    (\<forall>cs. concat cs = contents dst' \<longrightarrow> delivered (feed (proxy_request_decode L) k [] cs) = (rs, None))"
proof -
  have "request_good L k g r" if "(g, r) \<in> set (zip rngs rs)" for g r
    using assms(1-3,5) set_zip_leftD [OF that] set_zip_rightD [OF that]
    by (simp add: request_good_def request_fits_def)
  then have "\<forall>(g, r) \<in> set (zip rngs rs). request_good L k g r" by blast
  note del = rqc.stream_delivered [OF crates_okD(1) [OF assms(1)] this assms(6)]
  from del [unfolded map_snd_zip [OF assms(4)]] show ?thesis .
qed

lemma response_stream_through:
  assumes "crates_ok L" and "codec_ok L k" and "\<forall>r \<in> set rs. response_fits r"
    and "length rngs = length rs" and "\<forall>g \<in> set rngs. rng_ok g" and "contents dst = []"
  shows "\<exists>dst'. encode_all (proxy_response_encode L k) (zip rngs rs) dst = Inr dst' \<and>
    (\<forall>cs. concat cs = contents dst' \<longrightarrow> delivered (feed (proxy_response_decode L) k [] cs) = (rs, None))"
proof -
  have "response_good L k g r" if "(g, r) \<in> set (zip rngs rs)" for g r
    using assms(1-3,5) set_zip_leftD [OF that] set_zip_rightD [OF that]
    by (simp add: response_good_def response_fits_def)
  then have "\<forall>(g, r) \<in> set (zip rngs rs). response_good L k g r" by blast
  note del = rsc.stream_delivered [OF crates_okD(1) [OF assms(1)] this assms(6)]
  from del [unfolded map_snd_zip [OF assms(4)]] show ?thesis .
qed

section \<open>Properties\<close>

lemma launched_codecs:
  assumes "crates_ok L" and "run_client listens co = Inr (t, a, c)" and "run_server so = Inr (t', a', c')"
    and "connect_callback L clock (cf_crypto c) = Inr (rd, wr, s0)"
    and "accept_client L (cf_crypto c') = Inr (wr', rd', p0)"
  shows "\<exists>k. codec_ok L k \<and> rd = k \<and> wr = k \<and> rd' = k \<and> wr' = k \<and> p0 = proxy_client_new"
proof -
  from launch_codec [OF crates_okD(3) [OF assms(1)]] obtain k where
    k: "proxy_codec_new L launch_crypto = Inr k" by blast
  then have "codec_ok L k" by (rule codec_new_ok [OF crates_okD(3) [OF assms(1)]])
  with k assms(4,5) run_client_crypto [OF assms(2)] run_server_crypto [OF assms(3)] show ?thesis
    by (auto simp: connect_callback_def accept_client_def and_then_def)
qed

lemma launch_is_ref: "launch_crypto = ref_config"
  by (simp add: launch_crypto_def ref_config_def)

lemma ref_ends:
  "connect_callback ref_crates id (cf_crypto \<lparr>cf_quic = launch_quic_config, cf_crypto = launch_crypto\<rparr>) =
     Inr (ref_codec, ref_codec, ref_server)"
  "accept_client ref_crates (cf_crypto \<lparr>cf_quic = launch_quic_config, cf_crypto = launch_crypto\<rparr>) =
     Inr (ref_codec, ref_codec, proxy_client_new)"
  by (simp_all add: launch_is_ref ref_connect accept_client_def and_then_def ref_codec_new)

text \<open>
  C3: upstream, end to end. Take a client and a server started with any options. Whatever
  messages the client's actor handles, of which the requests fit the tunnel, encoding what it
  has written succeeds, and however the transport cuts the bytes, the server's reader delivers
  exactly those requests and heartbeats, in order and without error.
\<close>

theorem upstream_delivered:
  assumes "crates_ok L" and "run_client listens co = Inr (t, a, c)" and "run_server so = Inr (t', a', c')"
    and "connect_callback L clock (cf_crypto c) = Inr (rd, wr, s0)"
    and "accept_client L (cf_crypto c') = Inr (wr', rd', p0)"
    and "run_actor (server_handle checks) stops_server s0 ms = (os, oc, s)"
    and "\<forall>r. SVRequest r \<in> snd ` set ms \<longrightarrow> request_fits r"
    and "length rngs = length (requests_of os)" and "\<forall>g \<in> set rngs. rng_ok g" and "contents dst = []"
  shows "\<exists>dst'. encode_all (proxy_request_encode L wr) (zip rngs (requests_of os)) dst = Inr dst' \<and>
    (\<forall>cs. concat cs = contents dst' \<longrightarrow>
       delivered (feed (proxy_request_decode L) rd' [] cs) = (requests_of os, None))"
proof -
  from launched_codecs [OF assms(1-5)] obtain k where k: "codec_ok L k" "wr = k" "rd' = k" by blast
  from sva.run_keeps [OF server_rel_init [OF assms(4)] assms(6)] obtain calls rest where
    ms: "ms = calls @ rest" and "server_rel s calls os" by auto
  then have w: "requests_of os = written 0 (map snd calls)" by (simp add: server_rel_def Let_def)
  have "\<forall>r. SVRequest r \<in> set (map snd calls) \<longrightarrow> request_fits r"
    using assms(7) by (force simp: ms)
  from written_fits [OF this] w have "\<forall>r \<in> set (requests_of os). request_fits r" by auto
  from request_stream_through [OF assms(1) k(1) this assms(8-10)] show ?thesis by (simp only: k)
qed

theorem upstream_delivered_witness:
  "\<exists>dst'. encode_all (proxy_request_encode ref_crates ref_codec) (zip [ref_rng, ref_rng]
        (requests_of [WriteRequest (proxy_request_new 9 (PTData [1, 2])),
          WriteRequest (proxy_request_new 0 (PTHeartbeat 1)) :: nat server_effect])) empty_buf = Inr dst' \<and>
    (\<forall>cs. concat cs = contents dst' \<longrightarrow>
       delivered (feed (proxy_request_decode ref_crates) ref_codec [] cs) =
         (requests_of [WriteRequest (proxy_request_new 9 (PTData [1, 2])),
          WriteRequest (proxy_request_new 0 (PTHeartbeat 1)) :: nat server_effect], None))"
  by (rule upstream_delivered [where checks = False and oc = Running and
        ms = "[(id, SVRequest (proxy_request_new 9 (PTData [1, 2]))), (id, SVHeartbeat)]" and
        s = "ref_server\<lparr>sv_hb_index := 1, sv_last_hb_instant := 0\<rparr>",
        OF ref_crates_ok ref_launched ref_ends])
    (simp_all add: run_actor.simps server_handle_request_def server_handle_heartbeat_def Let_def
      ref_server_def ref_rng_ok transfer_fits_def)

text \<open>
  C4: downstream, end to end. Whatever messages the server's actor handles, of which the
  responses of its futures fit the tunnel, encoding the responses it has sent succeeds, and
  however the transport cuts the bytes, the client's reader delivers exactly those responses, in
  order and without error.
\<close>

theorem downstream_delivered:
  assumes "crates_ok L" and "run_client listens co = Inr (t, a, c)" and "run_server so = Inr (t', a', c')"
    and "connect_callback L clock (cf_crypto c) = Inr (rd, wr, s0)"
    and "accept_client L (cf_crypto c') = Inr (wr', rd', p0)"
    and "run_actor proxy_client_handle stops_proxy p0 ms = (os, oc, p)"
    and "\<forall>r. PCResponse r \<in> snd ` set ms \<longrightarrow> response_fits r"
    and "length rngs = length (responses_of os)" and "\<forall>g \<in> set rngs. rng_ok g" and "contents dst = []"
  shows "\<exists>dst'. encode_all (proxy_response_encode L wr') (zip rngs (responses_of os)) dst = Inr dst' \<and>
    (\<forall>cs. concat cs = contents dst' \<longrightarrow>
       delivered (feed (proxy_response_decode L) rd [] cs) = (responses_of os, None))"
proof -
  from launched_codecs [OF assms(1-5)] obtain k where
    k: "codec_ok L k" "wr' = k" "rd = k" and p0: "p0 = proxy_client_new" by blast
  from pca.run_keeps [OF proxy_client_rel_init assms(6) [unfolded p0]] obtain calls rest where
    ms: "ms = calls @ rest" and "proxy_client_rel p calls os" by auto
  then have w: "responses_of os = concat (map replies (map snd calls))"
    by (simp add: proxy_client_rel_def comp_def)
  have "\<forall>r. PCResponse r \<in> set (map snd calls) \<longrightarrow> response_fits r"
    using assms(7) by (force simp: ms)
  from replies_fit [OF this] w have "\<forall>r \<in> set (responses_of os). response_fits r" by (simp del: set_concat)
  from response_stream_through [OF assms(1) k(1) this assms(8-10)] show ?thesis by (simp only: k)
qed

theorem downstream_delivered_witness:
  "\<exists>dst'. encode_all (proxy_response_encode ref_crates ref_codec) (zip [ref_rng, ref_rng]
        (responses_of proxy_trace_effects)) empty_buf = Inr dst' \<and>
    (\<forall>cs. concat cs = contents dst' \<longrightarrow>
       delivered (feed (proxy_response_decode ref_crates) ref_codec [] cs) =
         (responses_of proxy_trace_effects, None))"
  by (rule downstream_delivered [where ms = proxy_trace and oc = Running and
        p = "\<lparr>pcl_connections = [9 \<mapsto> 3]\<rparr>", OF ref_crates_ok ref_launched ref_ends])
    (simp_all add: run_actor.simps proxy_trace_def proxy_trace_effects_def ref_env_def proxy_handlers
      handle_request_cases proxy_client_new_def ref_rng_ok transfer_fits_def)

text \<open>
  C22: a heartbeat comes back. The request the client's actor writes for a heartbeat makes the
  server's actor, in any state, send one response; handling that response does not crash the
  client's actor on a monotone clock and sets the time of the last answer, and a timer tick
  within 15 seconds of it asks for the next heartbeat.
\<close>

theorem heartbeat_answered:
  assumes "server_handle False clock s SVHeartbeat = Inr (s1, os)" and "pe_receiver_alive env"
    and "clock 0 \<le> clock1 0"
    and "clock1 1 \<le> clock2 0" and "clock2 0 \<le> clock1 1 + from_secs 15"
  shows "\<exists>q r s2. os = [WriteRequest q] \<and>
    proxy_client_handle env p (PCRequest q) = Inr (p, [SendResponse r]) \<and>
    server_handle False clock1 s1 (SVResponse r) = Inr (s2, []) \<and> sv_hb s2 = clock1 1 \<and>
    server_handle False clock2 s2 SVTick = Inr (s2, [SendHeartbeat])"
proof -
  from assms(1) have s1: "s1 = s\<lparr>sv_last_hb_instant := clock 0, sv_hb_index := sv_hb_index s + 1\<rparr>"
    and os: "os = [WriteRequest (proxy_request_new 0 (PTHeartbeat (sv_hb_index s + 1)))]"
    by (auto simp: server_handle_heartbeat_def Let_def)
  from assms(4,5) have "\<not> from_secs 15 < clock2 0 - clock1 1" by linarith
  with assms(2,3,4) show ?thesis
    by (intro exI [of _ "proxy_request_new 0 (PTHeartbeat (sv_hb_index s + 1))"]
        exI [of _ "proxy_response_new 0 (PTHeartbeat (sv_hb_index s + 1))"]
        exI [of _ "s1\<lparr>sv_hb := clock1 1\<rparr>"])
      (simp add: os s1 handle_request_cases handle_response_cases server_tick_def)
qed

theorem heartbeat_answered_witness:
  "\<exists>q r s2. [WriteRequest (proxy_request_new 0 (PTHeartbeat 1))] = [WriteRequest q :: nat server_effect] \<and>
    proxy_client_handle ref_env proxy_client_new (PCRequest q) = Inr (proxy_client_new, [SendResponse r]) \<and>
    server_handle False (\<lambda>n. 6) (ref_server\<lparr>sv_last_hb_instant := 5, sv_hb_index := 1\<rparr>) (SVResponse r) =
      Inr (s2, []) \<and> sv_hb s2 = 6 \<and>
    server_handle False (\<lambda>n. 7) s2 SVTick = Inr (s2, [SendHeartbeat])"
  by (rule heartbeat_answered [where clock = "\<lambda>n. 5" and s = ref_server and ?clock1.0 = "\<lambda>n. 6"])
    (simp_all add: server_handle_heartbeat_def Let_def ref_server_def ref_env_def from_secs_def)

end
