(* ===== verification/First_Stream.thy ===== *)
theory First_Stream
  imports Prelude
begin

text \<open>
  The adaptor that lets one item of a stream through (\<open>just-proxy-lib/src/ext.rs\<close>), used by the
  QUIC listener to take the first stream of each connection.
\<close>

text \<open>\<open>Result<Async<Option<I>>, ()>\<close>, the result of polling a stream.\<close>

datatype 'i poll = Ready "'i option" | NotReady | PollError

text \<open>
  One call of \<open>poll\<close>: the result of polling the inner stream, which happens in every call, and
  the flag \<open>first_taken\<close> give the result and the new flag.
\<close>

fun only_first_poll :: "'i poll \<Rightarrow> bool \<Rightarrow> 'i poll \<times> bool" where
  "only_first_poll _ True = (Ready None, True)"
| "only_first_poll (Ready i) False = (Ready i, True)"
| "only_first_poll other False = (other, False)"

fun poll_all :: "bool \<Rightarrow> 'i poll list \<Rightarrow> 'i poll list" where
  "poll_all first_taken [] = []"
| "poll_all first_taken (p # ps) =
     (case only_first_poll p first_taken of (r, first_taken) \<Rightarrow> r # poll_all first_taken ps)"

definition is_ready :: "'i poll \<Rightarrow> bool" where
  "is_ready p \<longleftrightarrow> (\<exists>i. p = Ready i)"

lemma poll_all_taken: "poll_all True ps = replicate (length ps) (Ready None)"
  by (induction ps) simp_all

text \<open>
  The adaptor passes on everything up to and including the first ready result of the inner
  stream, be it an item or its end, and from then on reports the end of the stream at every
  poll, whatever the inner stream, which it still polls, has to offer.
\<close>

theorem only_first_passes_one:
  "poll_all False ps =
     takeWhile (\<lambda>p. \<not> is_ready p) ps @
     (case dropWhile (\<lambda>p. \<not> is_ready p) ps of
        [] \<Rightarrow> [] | p # rest \<Rightarrow> p # replicate (length rest) (Ready None))"
proof (induction ps)
  case (Cons p ps)
  then show ?case by (cases p) (simp_all add: is_ready_def poll_all_taken)
qed simp

end
