(* ===== verification/Cli_Config.thy ===== *)
theory Cli_Config
  imports Launch "HOL-Library.AList"
begin

text \<open>
  The command line (\<open>just-proxy-bin/src/opt.rs\<close>): merging the two configurations into the one
  file that \<open>--dump-config\<close> prints, and reading that file back into the options of a client or a
  server. A \<open>Value\<close> of the JSON library is a datatype here; an object is an association list
  with distinct keys, whose order nothing observes. Serialising and deserialising the two structs
  is derived code: every field under its own name, an unset option as null.
\<close>

section \<open>Values and their merging\<close>

datatype json =
    JNull
  | JBool bool
  | JNumber int
  | JString rstring
  | JArray "json list"
  | JObject "(rstring \<times> json) list"

text \<open>\<open>a.entry(k).or_insert(Value::Null)\<close>: the value under \<open>k\<close>, null if there is none.\<close>

definition entry_or_null :: "rstring \<Rightarrow> (rstring \<times> json) list \<Rightarrow> json" where
  "entry_or_null k a = (case map_of a k of None \<Rightarrow> JNull | Some v \<Rightarrow> v)"

text \<open>\<open>merge(a, b)\<close>, with the value \<open>a\<close> is left with as its result.\<close>

fun merge :: "json \<Rightarrow> json \<Rightarrow> json" and
    merge_entries :: "(rstring \<times> json) list \<Rightarrow> (rstring \<times> json) list \<Rightarrow> (rstring \<times> json) list" where
  "merge (JObject a) (JObject b) = JObject (merge_entries a b)"
| "merge a b = b"
| "merge_entries a [] = a"
| "merge_entries a ((k, v) # b) = merge_entries (AList.update k (merge (entry_or_null k a) v) a) b"

lemma merge_entries_lookup:
  "distinct (map fst b) \<Longrightarrow> map_of (merge_entries a b) k =
     (case map_of b k of None \<Rightarrow> map_of a k | Some v \<Rightarrow> Some (merge (entry_or_null k a) v))"
proof (induction b arbitrary: a)
  case (Cons x b)
  obtain k' v where x: "x = (k', v)" by (cases x)
  with Cons.prems have k': "map_of b k' = None" by (simp add: map_of_eq_None_iff)
  from Cons x k' show ?case
    by (auto simp: update_conv' entry_or_null_def split: option.splits)
qed simp

lemma merge_entries_distinct:
  "distinct (map fst a) \<Longrightarrow> distinct (map fst (merge_entries a b))"
proof (induction b arbitrary: a)
  case (Cons x b)
  then show ?case by (cases x) (simp add: distinct_update)
qed simp

section \<open>Serialising and deserialising\<close>

definition opt_num :: "'a :: len word option \<Rightarrow> json" where
  "opt_num x = (case x of None \<Rightarrow> JNull | Some w \<Rightarrow> JNumber (uint w))"

definition opt_usize :: "nat option \<Rightarrow> json" where
  "opt_usize x = (case x of None \<Rightarrow> JNull | Some n \<Rightarrow> JNumber (int n))"

definition quic_entries :: "quic_config \<Rightarrow> (rstring \<times> json) list" where
  "quic_entries q =
     [(rstr ''stream_window_bidi'', opt_num (qc_stream_window_bidi q)),
      (rstr ''idle_timeout'', opt_num (qc_idle_timeout q)),
      (rstr ''stream_receive_window'', opt_num (qc_stream_receive_window q)),
      (rstr ''receive_window'', opt_num (qc_receive_window q)),
      (rstr ''max_tlps'', opt_num (qc_max_tlps q)),
      (rstr ''packet_threshold'', opt_num (qc_packet_threshold q)),
      (rstr ''time_threshold'', opt_num (qc_time_threshold q)),
      (rstr ''delayed_ack_timeout'', opt_num (qc_delayed_ack_timeout q)),
      (rstr ''initial_rtt'', opt_num (qc_initial_rtt q)),
      (rstr ''max_datagram_size'', opt_num (qc_max_datagram_size q)),
      (rstr ''initial_window'', opt_num (qc_initial_window q)),
      (rstr ''minimum_window'', opt_num (qc_minimum_window q)),
      (rstr ''loss_reduction_factor'', opt_num (qc_loss_reduction_factor q)),
      (rstr ''presistent_cognestion_threshold'', opt_num (qc_presistent_cognestion_threshold q)),
      (rstr ''local_cid_len'', opt_usize (qc_local_cid_len q))]"

definition crypto_entries :: "crypto_config \<Rightarrow> (rstring \<times> json) list" where
  "crypto_entries c =
     [(rstr ''key'', JString (cc_key c)), (rstr ''salt'', JString (cc_salt c)),
      (rstr ''crypto_method'', JString (cc_crypto_method c)),
      (rstr ''digest_method'', JString (cc_digest_method c)),
      (rstr ''digest_iteration'', JNumber (uint (cc_digest_iteration c)))]"

text \<open>A number of the field's width, a string, an optional and a required field.\<close>

fun num_of :: "json \<Rightarrow> 'a :: len word option" where
  "num_of (JNumber n) = (if 0 \<le> n \<and> n < 2 ^ LENGTH('a) then Some (word_of_int n) else None)"
| "num_of _ = None"

fun usize_of :: "json \<Rightarrow> nat option" where
  "usize_of (JNumber n) = (if 0 \<le> n \<and> n < 2 ^ 64 then Some (nat n) else None)"
| "usize_of _ = None"

fun string_of :: "json \<Rightarrow> rstring option" where
  "string_of (JString s) = Some s"
| "string_of _ = None"

fun read_opt :: "(json \<Rightarrow> 'a option) \<Rightarrow> json \<Rightarrow> 'a option option" where
  "read_opt f JNull = Some None"
| "read_opt f v = map_option Some (f v)"

definition opt_field ::
    "(json \<Rightarrow> 'a option) \<Rightarrow> rstring \<Rightarrow> (rstring \<times> json) list \<Rightarrow> 'a option option" where
  "opt_field f k a = read_opt f (entry_or_null k a)"

definition field :: "(json \<Rightarrow> 'a option) \<Rightarrow> rstring \<Rightarrow> (rstring \<times> json) list \<Rightarrow> 'a option" where
  "field f k a = Option.bind (map_of a k) f"

definition quic_of_entries :: "(rstring \<times> json) list \<Rightarrow> quic_config option" where
  "quic_of_entries a = do {
     stream_window_bidi \<leftarrow> opt_field num_of (rstr ''stream_window_bidi'') a;
     idle_timeout \<leftarrow> opt_field num_of (rstr ''idle_timeout'') a;
     stream_receive_window \<leftarrow> opt_field num_of (rstr ''stream_receive_window'') a;
     receive_window \<leftarrow> opt_field num_of (rstr ''receive_window'') a;
     max_tlps \<leftarrow> opt_field num_of (rstr ''max_tlps'') a;
     packet_threshold \<leftarrow> opt_field num_of (rstr ''packet_threshold'') a;
     time_threshold \<leftarrow> opt_field num_of (rstr ''time_threshold'') a;
     delayed_ack_timeout \<leftarrow> opt_field num_of (rstr ''delayed_ack_timeout'') a;
     initial_rtt \<leftarrow> opt_field num_of (rstr ''initial_rtt'') a;
     max_datagram_size \<leftarrow> opt_field num_of (rstr ''max_datagram_size'') a;
     initial_window \<leftarrow> opt_field num_of (rstr ''initial_window'') a;
     minimum_window \<leftarrow> opt_field num_of (rstr ''minimum_window'') a;
     loss_reduction_factor \<leftarrow> opt_field num_of (rstr ''loss_reduction_factor'') a;
     presistent_cognestion_threshold \<leftarrow> opt_field num_of (rstr ''presistent_cognestion_threshold'') a;
     local_cid_len \<leftarrow> opt_field usize_of (rstr ''local_cid_len'') a;
     Some \<lparr>qc_stream_window_bidi = stream_window_bidi,
            qc_idle_timeout = idle_timeout,
            qc_stream_receive_window = stream_receive_window,
            qc_receive_window = receive_window,
            qc_max_tlps = max_tlps,
            qc_packet_threshold = packet_threshold,
            qc_time_threshold = time_threshold,
            qc_delayed_ack_timeout = delayed_ack_timeout,
            qc_initial_rtt = initial_rtt,
            qc_max_datagram_size = max_datagram_size,
            qc_initial_window = initial_window,
            qc_minimum_window = minimum_window,
            qc_loss_reduction_factor = loss_reduction_factor,
            qc_presistent_cognestion_threshold = presistent_cognestion_threshold,
            qc_local_cid_len = local_cid_len\<rparr> }"

definition crypto_of_entries :: "(rstring \<times> json) list \<Rightarrow> crypto_config option" where
  "crypto_of_entries a = do {
     key \<leftarrow> field string_of (rstr ''key'') a;
     salt \<leftarrow> field string_of (rstr ''salt'') a;
     crypto_method \<leftarrow> field string_of (rstr ''crypto_method'') a;
     digest_method \<leftarrow> field string_of (rstr ''digest_method'') a;
     digest_iteration \<leftarrow> field num_of (rstr ''digest_iteration'') a;
     Some \<lparr>cc_key = key, cc_salt = salt, cc_crypto_method = crypto_method,
            cc_digest_method = digest_method, cc_digest_iteration = digest_iteration\<rparr> }"

fun object_of :: "json \<Rightarrow> (rstring \<times> json) list option" where
  "object_of (JObject a) = Some a"
| "object_of _ = None"

section \<open>The commands\<close>

record bin_opt =
  bo_verbose :: bool
  bo_socks_host :: rstring
  bo_proxy_host :: rstring
  bo_socks_port :: i64
  bo_proxy_port :: i64
  bo_protocol :: rstring
  bo_server :: bool
  bo_config_path :: rstring
  bo_dump_config :: bool
  bo_retry :: bool
  bo_retry_interval :: u64
  bo_daemon :: bool

text \<open>
  \<open>file path\<close> is the value the configuration file parses to, \<open>None\<close> when it cannot be read or is
  not JSON; every failure on the way is an \<open>unwrap\<close> that panics.
\<close>

definition read_config :: "(rstring \<Rightarrow> json option) \<Rightarrow> rstring \<Rightarrow> config option" where
  "read_config file path = do {
     v \<leftarrow> file path;
     a \<leftarrow> object_of v;
     quic_config \<leftarrow> quic_of_entries a;
     crypto_config \<leftarrow> crypto_of_entries a;
     crypto \<leftarrow> convert_unwrap crypto_config;
     Some \<lparr>cf_quic = quic_config, cf_crypto = crypto\<rparr> }"

definition to_server_config :: "(rstring \<Rightarrow> json option) \<Rightarrow> bin_opt \<Rightarrow> server_opt res" where
  "to_server_config file self = unwrap (do {
     config \<leftarrow> read_config file (bo_config_path self);
     Some \<lparr>so_proxy_host = bo_proxy_host self, so_proxy_port = bo_proxy_port self,
            so_protocol = bo_protocol self, so_config = config\<rparr> })"

definition to_client_config :: "(rstring \<Rightarrow> json option) \<Rightarrow> bin_opt \<Rightarrow> client_opt res" where
  "to_client_config file self = unwrap (do {
     config \<leftarrow> read_config file (bo_config_path self);
     Some \<lparr>co_socks_host = bo_socks_host self, co_proxy_host = bo_proxy_host self,
            co_socks_port = bo_socks_port self, co_proxy_port = bo_proxy_port self,
            co_protocol = bo_protocol self, co_config = config\<rparr> })"

definition dump_config :: json where
  "dump_config =
     merge (JObject (quic_entries launch_quic_config)) (JObject (crypto_entries launch_crypto_config))"

section \<open>Properties\<close>

lemma char_byte_inj: "(word_of_nat (of_char c) :: u8) = word_of_nat (of_char d) \<Longrightarrow> c = d"
proof -
  assume "(word_of_nat (of_char c) :: u8) = word_of_nat (of_char d)"
  then have "(of_char c :: nat) mod 256 = of_char d mod 256"
    by (simp add: word_of_nat_eq_iff take_bit_eq_mod)
  then show "c = d" by simp
qed

lemma rstr_inj [simp]: "rstr a = rstr b \<longleftrightarrow> a = b"
proof -
  have "inj (\<lambda>c. word_of_nat (of_char c) :: u8)" by (rule injI) (rule char_byte_inj)
  then show ?thesis by (simp add: rstr_def inj_map_eq_map)
qed

lemma crypto_distinct: "distinct (map fst (crypto_entries c))"
  by (simp add: crypto_entries_def)

lemma num_of_uint [simp]: "num_of (JNumber (uint (w :: 'a :: len word))) = Some w"
  using unsigned_less [of w, where ?'a = int] by simp

lemma entries_distinct:
  "distinct (map fst (quic_entries q))" "distinct (map fst (crypto_entries c))"
  by (simp_all add: quic_entries_def crypto_entries_def)

lemma read_opt_num [simp]: "read_opt num_of (opt_num x) = Some x"
  by (cases x) (simp_all add: opt_num_def)

lemma read_opt_usize [simp]:
  "\<forall>n. x = Some n \<longrightarrow> n < 2 ^ 64 \<Longrightarrow> read_opt usize_of (opt_usize x) = Some x"
  by (cases x) (simp_all add: opt_usize_def)

lemma quic_lookup:
  "entry_or_null (rstr ''stream_window_bidi'') (quic_entries q) = opt_num (qc_stream_window_bidi q)"
  "entry_or_null (rstr ''idle_timeout'') (quic_entries q) = opt_num (qc_idle_timeout q)"
  "entry_or_null (rstr ''stream_receive_window'') (quic_entries q) = opt_num (qc_stream_receive_window q)"
  "entry_or_null (rstr ''receive_window'') (quic_entries q) = opt_num (qc_receive_window q)"
  "entry_or_null (rstr ''max_tlps'') (quic_entries q) = opt_num (qc_max_tlps q)"
  "entry_or_null (rstr ''packet_threshold'') (quic_entries q) = opt_num (qc_packet_threshold q)"
  "entry_or_null (rstr ''time_threshold'') (quic_entries q) = opt_num (qc_time_threshold q)"
  "entry_or_null (rstr ''delayed_ack_timeout'') (quic_entries q) = opt_num (qc_delayed_ack_timeout q)"
  "entry_or_null (rstr ''initial_rtt'') (quic_entries q) = opt_num (qc_initial_rtt q)"
  "entry_or_null (rstr ''max_datagram_size'') (quic_entries q) = opt_num (qc_max_datagram_size q)"
  "entry_or_null (rstr ''initial_window'') (quic_entries q) = opt_num (qc_initial_window q)"
  "entry_or_null (rstr ''minimum_window'') (quic_entries q) = opt_num (qc_minimum_window q)"
  "entry_or_null (rstr ''loss_reduction_factor'') (quic_entries q) = opt_num (qc_loss_reduction_factor q)"
  "entry_or_null (rstr ''presistent_cognestion_threshold'') (quic_entries q) = opt_num (qc_presistent_cognestion_threshold q)"
  "entry_or_null (rstr ''local_cid_len'') (quic_entries q) = opt_usize (qc_local_cid_len q)"
  by (simp_all add: quic_entries_def entry_or_null_def)

lemma not_crypto:
  "map_of (crypto_entries c) (rstr ''stream_window_bidi'') = None"
  "map_of (crypto_entries c) (rstr ''idle_timeout'') = None"
  "map_of (crypto_entries c) (rstr ''stream_receive_window'') = None"
  "map_of (crypto_entries c) (rstr ''receive_window'') = None"
  "map_of (crypto_entries c) (rstr ''max_tlps'') = None"
  "map_of (crypto_entries c) (rstr ''packet_threshold'') = None"
  "map_of (crypto_entries c) (rstr ''time_threshold'') = None"
  "map_of (crypto_entries c) (rstr ''delayed_ack_timeout'') = None"
  "map_of (crypto_entries c) (rstr ''initial_rtt'') = None"
  "map_of (crypto_entries c) (rstr ''max_datagram_size'') = None"
  "map_of (crypto_entries c) (rstr ''initial_window'') = None"
  "map_of (crypto_entries c) (rstr ''minimum_window'') = None"
  "map_of (crypto_entries c) (rstr ''loss_reduction_factor'') = None"
  "map_of (crypto_entries c) (rstr ''presistent_cognestion_threshold'') = None"
  "map_of (crypto_entries c) (rstr ''local_cid_len'') = None"
  by (simp_all add: crypto_entries_def)

text \<open>Merging objects with no key in common is their union.\<close>

lemma merged_entry:
  "map_of (merge_entries (quic_entries q) (crypto_entries c)) k =
     (case map_of (crypto_entries c) k of
        None \<Rightarrow> map_of (quic_entries q) k | Some v \<Rightarrow> Some (merge (entry_or_null k (quic_entries q)) v))"
  by (rule merge_entries_lookup [OF entries_distinct(2)])

lemma crypto_merged:
  "crypto_of_entries (merge_entries (quic_entries q) (crypto_entries c)) = Some c"
  using unsigned_less [of "cc_digest_iteration c", where ?'a = int]
  by (simp add: crypto_of_entries_def field_def merged_entry)
    (simp add: crypto_entries_def quic_entries_def entry_or_null_def)

lemma merged_null:
  "map_of (crypto_entries c) k = None \<Longrightarrow>
   entry_or_null k (merge_entries (quic_entries q) (crypto_entries c)) = entry_or_null k (quic_entries q)"
  by (simp add: entry_or_null_def merged_entry)

lemma quic_merged:
  assumes "\<forall>n. qc_local_cid_len q = Some n \<longrightarrow> n < 2 ^ 64"
  shows "quic_of_entries (merge_entries (quic_entries q) (crypto_entries c)) = Some q"
  using assms by (simp add: quic_of_entries_def opt_field_def merged_null not_crypto quic_lookup)

text \<open>
  C38: the two configurations share one file without loss. Whatever their values, the object that
  merging them gives reads back as the same QUIC configuration and as the same crypto
  configuration, unset options included.
\<close>

theorem merged_config_reads_back:
  assumes "\<forall>n. qc_local_cid_len q = Some n \<longrightarrow> n < 2 ^ 64"
  shows "\<exists>a. merge (JObject (quic_entries q)) (JObject (crypto_entries c)) = JObject a \<and>
    quic_of_entries a = Some q \<and> crypto_of_entries a = Some c"
  using quic_merged [OF assms] crypto_merged by simp

theorem merged_config_reads_back_witness:
  "\<exists>a. merge (JObject (quic_entries (launch_quic_config\<lparr>qc_local_cid_len := Some 8\<rparr>)))
        (JObject (crypto_entries launch_crypto_config)) = JObject a \<and>
    quic_of_entries a = Some (launch_quic_config\<lparr>qc_local_cid_len := Some 8\<rparr>) \<and>
    crypto_of_entries a = Some launch_crypto_config"
  by (rule merged_config_reads_back) simp

text \<open>
  The file that \<open>--dump-config\<close> prints is a configuration file both ends accept: a client and
  a server that read it get its configuration, with the options of the command line otherwise.
\<close>

theorem dumped_config_accepted:
  "to_server_config (\<lambda>path. Some dump_config) self =
     Inr \<lparr>so_proxy_host = bo_proxy_host self, so_proxy_port = bo_proxy_port self,
          so_protocol = bo_protocol self,
          so_config = \<lparr>cf_quic = launch_quic_config, cf_crypto = launch_crypto\<rparr>\<rparr> \<and>
   to_client_config (\<lambda>path. Some dump_config) self =
     Inr \<lparr>co_socks_host = bo_socks_host self, co_proxy_host = bo_proxy_host self,
          co_socks_port = bo_socks_port self, co_proxy_port = bo_proxy_port self,
          co_protocol = bo_protocol self,
          co_config = \<lparr>cf_quic = launch_quic_config, cf_crypto = launch_crypto\<rparr>\<rparr>"
proof -
  have "qc_local_cid_len launch_quic_config = None" by (simp add: launch_quic_config_def)
  then have "read_config (\<lambda>path. Some dump_config) path =
      Some \<lparr>cf_quic = launch_quic_config, cf_crypto = launch_crypto\<rparr>" for path
    by (simp add: read_config_def dump_config_def quic_merged crypto_merged convert_launch)
  then show ?thesis by (simp add: to_server_config_def to_client_config_def)
qed

text \<open>
  Merging looks at every key on its own: a key of the second object alone is added, a key of
  the first alone stays as it is, and under a key of both the values are merged in turn, where
  anything but two objects means that the second value wins. Distinct keys stay distinct.
\<close>

theorem merge_per_key:
  assumes "distinct (map fst a)" and "distinct (map fst b)"
  shows "\<exists>m. merge (JObject a) (JObject b) = JObject m \<and> distinct (map fst m) \<and>
    (\<forall>k. map_of m k = (case (map_of a k, map_of b k) of
       (x, None) \<Rightarrow> x
     | (None, Some w) \<Rightarrow> Some w
     | (Some v, Some w) \<Rightarrow> Some (merge v w)))"
proof -
  have "merge JNull w = w" for w by (cases w) simp_all
  with merge_entries_lookup [OF assms(2), of a] merge_entries_distinct [OF assms(1), of b] show ?thesis
    by (auto simp: entry_or_null_def split: option.splits)
qed

theorem merge_per_key_witness:
  "\<exists>m. merge (JObject [([1], JNull), ([2], JBool True)]) (JObject [([2], JNull), ([3], JNumber 5)]) = JObject m \<and>
    distinct (map fst m) \<and>
    (\<forall>k. map_of m k = (case (map_of [([1], JNull), ([2], JBool True)] k,
          map_of [([2], JNull), ([3], JNumber 5)] k) of
       (x, None) \<Rightarrow> x
     | (None, Some w) \<Rightarrow> Some w
     | (Some v, Some w) \<Rightarrow> Some (merge v w)))"
  by (rule merge_per_key) simp_all

end
