(* ===== verification/Node_Writes.thy ===== *)
theory Node_Writes
  imports Proxy_Node
begin

text \<open>
  What the server end writes to the targets, in every interleaving: data only ever goes to a
  connection that was opened for its identifier, and as long as the system takes whole writes,
  the writes for an identifier are the data requests received for it.
\<close>

section \<open>Requests and writes of a run\<close>

fun req_data :: "u16 \<Rightarrow> proxy_request list \<Rightarrow> bytes list" where
  "req_data u [] = []"
| "req_data u (q # qs) =
     (case prq_request q of
        PTData d \<Rightarrow> (if prq_uuid q = u then d # req_data u qs else req_data u qs)
      | _ \<Rightarrow> req_data u qs)"

fun node_requests :: "'w node_event list \<Rightarrow> proxy_request list" where
  "node_requests [] = []"
| "node_requests (NRequest env q # es) = q # node_requests es"
| "node_requests (_ # es) = node_requests es"

definition written_for :: "u16 \<Rightarrow> (u16 \<times> 'w \<times> bytes) list \<Rightarrow> bytes list" where
  "written_for u ws = map (snd \<circ> snd) (filter (\<lambda>x. fst x = u) ws)"

text \<open>Every write is taken whole.\<close>

definition full_env :: "'w proxy_env \<Rightarrow> bool" where
  "full_env env \<longleftrightarrow> (\<forall>w d. pe_write env w d = Some (length d))"

definition full_writes :: "'w node_event list \<Rightarrow> bool" where
  "full_writes es \<longleftrightarrow> (\<forall>env q. NRequest env q \<in> set es \<longrightarrow> full_env env)"

text \<open>The connections the resolver opened for an identifier.\<close>

definition opened :: "'w node_event list \<Rightarrow> u16 \<Rightarrow> 'w set" where
  "opened es u = {w. NResolved u (ConnectedTo w) \<in> set es}"

lemma req_data_append [simp]: "req_data u (qs @ rs) = req_data u qs @ req_data u rs"
  by (induction qs) (auto split: proxy_transfer.splits)

lemma node_requests_append [simp]: "node_requests (es @ fs) = node_requests es @ node_requests fs"
  by (induction es rule: node_requests.induct) auto

lemma written_for_append [simp]: "written_for u (xs @ ys) = written_for u xs @ written_for u ys"
  by (simp add: written_for_def)

lemma full_writes_append [simp]: "full_writes (es @ fs) \<longleftrightarrow> full_writes es \<and> full_writes fs"
  by (auto simp: full_writes_def)

lemma opened_append [simp]: "opened (es @ fs) u = opened es u \<union> opened fs u"
  by (auto simp: opened_def)

text \<open>Only a data request writes.\<close>

lemma writes_of_call:
  assumes "proxy_client_handle env s m = Inr (s', os)"
  shows "(\<forall>q. m \<noteq> PCRequest q) \<longrightarrow> writes_of os = []"
    and "m = PCRequest q \<Longrightarrow> full_env env \<Longrightarrow> map snd (writes_of os) = req_data (prq_uuid q) [q]"
    and "(w, d) \<in> set (writes_of os) \<Longrightarrow> pcl_connections s (msg_uuid m) = Some w"
proof -
  show "(\<forall>q. m \<noteq> PCRequest q) \<longrightarrow> writes_of os = []"
    using assms by (cases m) (auto simp: proxy_handlers split: if_splits)
  show "m = PCRequest q \<Longrightarrow> full_env env \<Longrightarrow> map snd (writes_of os) = req_data (prq_uuid q) [q]"
    using assms by (auto simp: handle_request_cases full_env_def
        split: proxy_transfer.splits option.splits if_splits)
  show "(w, d) \<in> set (writes_of os) \<Longrightarrow> pcl_connections s (msg_uuid m) = Some w"
    using assms by (cases m) (auto simp: handle_request_cases proxy_handlers
        split: proxy_transfer.splits option.splits if_splits)
qed

lemma connections_of_call:
  assumes "proxy_client_handle env s m = Inr (s', os)" and "pcl_connections s' u = Some w"
  shows "pcl_connections s u = Some w \<or> m = PCEstablished u w"
  using assms by (cases m) (auto simp: handle_request_cases proxy_handlers
      split: proxy_transfer.splits option.splits if_splits)

section \<open>The invariant\<close>

definition writes_inv :: "'w node_event list \<Rightarrow> 'w node \<Rightarrow> bool" where
  "writes_inv es n \<longleftrightarrow>
     (\<forall>u w. pcl_connections (nd_actor n) u = Some w \<longrightarrow> w \<in> opened es u) \<and>
     (\<forall>u w. PCEstablished u w \<in> set (nd_mailbox n) \<longrightarrow> w \<in> opened es u) \<and>
     (\<forall>(u, w, d) \<in> set (nd_written n). w \<in> opened es u) \<and>
     (full_writes es \<longrightarrow> (\<forall>u. written_for u (nd_written n) = req_data u (node_requests es)))"

lemma node_call_parts:
  assumes "node_call env m n = Some n'"
  obtains a os where "proxy_client_handle env (nd_actor n) m = Inr (a, os)" "nd_actor n' = a"
    "nd_mailbox n' = nd_mailbox n" "nd_written n' = nd_written n @ map (Pair (msg_uuid m)) (writes_of os)"
  using assms by (auto simp: node_call_def split: if_splits sum.splits prod.splits)

lemma written_for_pair:
  "written_for u (map (Pair v) ws) = (if u = v then map snd ws else [])"
  by (induction ws) (auto simp: written_for_def)

lemma req_data_single_other: "prq_uuid q \<noteq> u \<Longrightarrow> req_data u [q] = []"
  by (simp split: proxy_transfer.splits)

lemma writes_inv_step:
  assumes "writes_inv es n" and "node_next n e = Some n'" and "node_inv es n"
  shows "writes_inv (es @ [e]) n'"
proof -
  have call: "writes_inv (es @ [e]) n'"
    if c: "node_call env m k = Some n'" and k: "nd_actor k = nd_actor n" "nd_written k = nd_written n"
      "set (nd_mailbox k) \<subseteq> set (nd_mailbox n)"
      and m: "(\<exists>q. m = PCRequest q \<and> e = NRequest env q) \<or> m \<in> set (nd_mailbox n) \<and> e = NMailbox env"
    for env m k
  proof -
    from node_call_parts [OF c] obtain a os where h: "proxy_client_handle env (nd_actor n) m = Inr (a, os)"
      and n': "nd_actor n' = a" "nd_mailbox n' = nd_mailbox k"
        "nd_written n' = nd_written n @ map (Pair (msg_uuid m)) (writes_of os)"
      using k(1,2) by metis
    have nomail: "m \<in> set (nd_mailbox n) \<Longrightarrow> \<forall>q. m \<noteq> PCRequest q"
      using assms(3) by (auto simp: node_inv_def Let_def)
    have "written_for u (nd_written n') = req_data u (node_requests (es @ [e]))"
      if "full_writes (es @ [e])" for u
      using m
    proof
      assume "\<exists>q. m = PCRequest q \<and> e = NRequest env q"
      then obtain q where q: "m = PCRequest q" "e = NRequest env q" by blast
      with that have "full_env env" by (simp add: full_writes_def)
      from writes_of_call(2) [OF h q(1) this] assms(1) that show ?thesis
        by (auto simp: writes_inv_def n'(3) q written_for_pair req_data_single_other simp del: req_data.simps)
    next
      assume e: "m \<in> set (nd_mailbox n) \<and> e = NMailbox env"
      with writes_of_call(1) [OF h] nomail have "writes_of os = []" by blast
      with assms(1) that e show ?thesis by (simp add: writes_inv_def n'(3))
    qed
    moreover have "w \<in> opened es u" if "pcl_connections a u = Some w" for u w
      using connections_of_call [OF h that] assms(1) m by (auto simp: writes_inv_def)
    moreover have "w \<in> opened es (msg_uuid m)" if "(w, d) \<in> set (writes_of os)" for w d
      using writes_of_call(3) [OF h that] assms(1) by (auto simp: writes_inv_def)
    ultimately show ?thesis using assms(1) k(3) by (auto simp: writes_inv_def n')
  qed
  show ?thesis
  proof (cases e)
    case (NRequest env q)
    with assms(2) show ?thesis by (intro call [of env "PCRequest q" n]) auto
  next
    case (NMailbox env)
    with assms(2) obtain m ms where "nd_mailbox n = m # ms" "node_call env m (n\<lparr>nd_mailbox := ms\<rparr>) = Some n'"
      by (auto split: list.splits)
    with NMailbox show ?thesis by (intro call [of env m "n\<lparr>nd_mailbox := ms\<rparr>"]) auto
  next
    case (NResolved u result)
    with assms(1,2) show ?thesis
      by (cases result) (auto simp: writes_inv_def resolver_done_def opened_def full_writes_def split: if_splits)
  next
    case (NRead u ev)
    with assms(1,2) show ?thesis
      by (cases ev) (auto simp: writes_inv_def reader_step_def opened_def full_writes_def split: if_splits)
  next
    case (NFinished env)
    with assms(2) have c: "node_call env PCFinished n = Some n'" by simp
    from node_call_parts [OF c] have "nd_actor n' = nd_actor n" "nd_mailbox n' = nd_mailbox n"
      "nd_written n' = nd_written n" by (auto simp: proxy_finished_def)
    with assms(1) NFinished show ?thesis by (simp add: writes_inv_def opened_def full_writes_def)
  qed
qed

lemma writes_invariant: "node_run es n \<Longrightarrow> writes_inv es n"
proof (induction rule: node_run.induct)
  case start
  show ?case by (simp add: writes_inv_def node_new_def proxy_client_new_def written_for_def)
next
  case (step es n e n')
  then show ?case by (intro writes_inv_step node_invariant)
qed

section \<open>Properties\<close>

lemma data_to_own_connection_aux:
  "node_run es n \<Longrightarrow> (u, w, d) \<in> set (nd_written n) \<Longrightarrow> w \<in> opened es u"
  using writes_invariant by (fastforce simp: writes_inv_def)

lemma whole_writes_aux:
  "node_run es n \<Longrightarrow> full_writes es \<Longrightarrow> written_for u (nd_written n) = req_data u (node_requests es)"
  using writes_invariant by (fastforce simp: writes_inv_def)

text \<open>
  C15: data never reaches a stranger. In every interleaving, whatever is written for an
  identifier is written to a connection that the resolver opened for that identifier.
\<close>

theorem data_to_own_connection:
  assumes "node_run es n" and "(u, w, d) \<in> set (nd_written n)"
  shows "NResolved u (ConnectedTo w) \<in> set es"
  using data_to_own_connection_aux [OF assms] by (simp add: opened_def)

definition ref_write_events :: "nat node_event list" where
  "ref_write_events = ref_events @ [NRequest ref_env (proxy_request_new 9 (PTData [1, 2]))]"

definition ref_write_node :: "nat node" where
  "ref_write_node = ref_node\<lparr>nd_written := [(9, 3, [1, 2])]\<rparr>"

lemma ref_write_run: "node_run ref_write_events ref_write_node"
  unfolding ref_write_events_def
  by (rule node_run.step [OF ref_node_run])
    (simp add: ref_node_def ref_write_node_def node_call_def handle_request_cases ref_env_def)

theorem data_to_own_connection_witness:
  "NResolved 9 (ConnectedTo 3) \<in> set ref_write_events"
  by (rule data_to_own_connection [OF ref_write_run, where d = "[1, 2]"]) (simp add: ref_write_node_def)

end
