(* ===== verification/Tunnel_System.thy ===== *)
theory Tunnel_System
  imports Socks_Client Client_Server Node_Writes
begin

text \<open>
  The whole program as one state machine: the SOCKS actors, the client's tunnel actor with its
  mailbox, the two directions of the tunnel, and the server end. Every interleaving of their
  steps is a run. A direction of the tunnel is a queue of messages here; that the encrypted byte
  stream behaves as such a queue is shown in \<open>Byte_Channel\<close>. SOCKS actors are numbered by the
  address the runtime gave them.
\<close>

section \<open>The state machine\<close>

type_synonym addr = nat

text \<open>
  \<open>sy_stopped\<close> are the SOCKS actors that were stopped, by an abort or by the end of their
  application's stream (\<open>AppCloses\<close>): their mailboxes are not read any more. \<open>sy_closed\<close>: the tunnel's
  actor was stopped by the end of its response stream (\<open>TunnelCloses\<close>). Of the responses sent by the server end the client has taken the first \<open>sy_taken\<close>. The
  last three fields are logs: the requests the SOCKS actors sent, the requests the server end
  got, and what each application was sent.
\<close>

record 'w system =
  sy_socks :: "addr \<Rightarrow> socks_client option"
  sy_socks_box :: "addr \<Rightarrow> connector_response list"
  sy_stopped :: "addr set"
  sy_server :: "addr server"
  sy_server_box :: "addr server_msg list"
  sy_up :: "proxy_request list"
  sy_node :: "'w node"
  sy_taken :: nat
  sy_sent :: "proxy_request list"
  sy_got :: "proxy_request list"
  sy_app :: "addr \<Rightarrow> socks_response list"
  sy_closed :: bool

datatype 'w sys_event =
    AppConnects u16 addr
  | AppItem addr instant socks_request
  | SocksMailbox addr instant
  | TimerTick clock
  | ServerMailbox clock
  | ResponseArrives clock
  | RequestArrives "'w proxy_env"
  | NodeStep "'w node_event"
  | TunnelCloses
  | AppCloses addr

text \<open>What the environment of an actor does with its effects.\<close>

fun socks_requests :: "socks_effect list \<Rightarrow> proxy_request list" where
  "socks_requests [] = []"
| "socks_requests (ToServer r # os) = r # socks_requests os"
| "socks_requests (_ # os) = socks_requests os"

definition post_sends ::
    "(addr \<times> connector_response) list \<Rightarrow> (addr \<Rightarrow> connector_response list) \<Rightarrow>
     addr \<Rightarrow> connector_response list" where
  "post_sends sends box a = box a @ map snd (filter (\<lambda>x. fst x = a) sends)"

definition heartbeats_of :: "'addr server_effect list \<Rightarrow> 'addr server_msg list" where
  "heartbeats_of os = map (\<lambda>_. SVHeartbeat) (filter (\<lambda>e. e = SendHeartbeat) os)"

text \<open>A call of a SOCKS actor, and of the tunnel actor, in the system.\<close>

definition socks_call :: "bool \<Rightarrow> addr \<Rightarrow> instant \<Rightarrow> socks_client_msg \<Rightarrow> 'w system \<Rightarrow> 'w system option" where
  "socks_call checks a now m s =
     (case sy_socks s a of
        None \<Rightarrow> None
      | Some c \<Rightarrow>
          (if a \<in> sy_stopped s then None
           else (case socks_client_handle checks now c m of
             Inl f \<Rightarrow> None
           | Inr (c', os) \<Rightarrow> Some (s\<lparr>
               sy_socks := (sy_socks s)(a \<mapsto> c'),
               sy_stopped := (if list_ex is_stop os then insert a (sy_stopped s) else sy_stopped s),
               sy_server_box := sy_server_box s @ map SVRequest (socks_requests os),
               sy_sent := sy_sent s @ socks_requests os,
               sy_app := (sy_app s)(a := sy_app s a @ app_replies os)\<rparr>))))"

definition server_call :: "bool \<Rightarrow> clock \<Rightarrow> addr server_msg \<Rightarrow> 'w system \<Rightarrow> 'w system option" where
  "server_call checks clock m s =
     (if sy_closed s then None
      else case server_handle checks clock (sy_server s) m of
        Inl f \<Rightarrow> None
      | Inr (v, os) \<Rightarrow> Some (s\<lparr>
          sy_server := v,
          sy_server_box := sy_server_box s @ heartbeats_of os,
          sy_up := sy_up s @ requests_of os,
          sy_socks_box := post_sends (sends_of os) (sy_socks_box s),
          sy_closed := list_ex stops_server os\<rparr>))"

text \<open>\<open>None\<close>: the event cannot happen in this state, or it crashes an actor.\<close>

fun sys_next :: "bool \<Rightarrow> 'w system \<Rightarrow> 'w sys_event \<Rightarrow> 'w system option" where
  "sys_next checks s (AppConnects u a) =
     (if sy_socks s a \<noteq> None then None
      else map_option (\<lambda>s'. s'\<lparr>sy_socks := (sy_socks s')(a \<mapsto> socks_client_new u)\<rparr>)
             (server_call checks (\<lambda>_. 0) (SVConnected u a) s))"
| "sys_next checks s (AppItem a now item) = socks_call checks a now (FromApp item) s"
| "sys_next checks s (SocksMailbox a now) =
     (case sy_socks_box s a of
        [] \<Rightarrow> None
      | r # rs \<Rightarrow> socks_call checks a now (FromServer r)
                    (s\<lparr>sy_socks_box := (sy_socks_box s)(a := rs)\<rparr>))"
| "sys_next checks s (TimerTick clock) = server_call checks clock SVTick s"
| "sys_next checks s (ServerMailbox clock) =
     (case sy_server_box s of
        [] \<Rightarrow> None
      | m # ms \<Rightarrow> server_call checks clock m (s\<lparr>sy_server_box := ms\<rparr>))"
| "sys_next checks s (ResponseArrives clock) =
     (if sy_taken s < length (nd_sent (sy_node s))
      then server_call checks clock (SVResponse (nd_sent (sy_node s) ! sy_taken s))
             (s\<lparr>sy_taken := Suc (sy_taken s)\<rparr>)
      else None)"
| "sys_next checks s (RequestArrives env) =
     (case sy_up s of
        [] \<Rightarrow> None
      | q # qs \<Rightarrow> map_option (\<lambda>n. s\<lparr>sy_node := n, sy_up := qs, sy_got := sy_got s @ [q]\<rparr>)
                    (node_next (sy_node s) (NRequest env q)))"
| "sys_next checks s (NodeStep e) =
     (case e of
        NRequest _ _ \<Rightarrow> None
      | _ \<Rightarrow> map_option (\<lambda>n. s\<lparr>sy_node := n\<rparr>) (node_next (sy_node s) e))"
| "sys_next checks s TunnelCloses = server_call checks (\<lambda>_. 0) SVFinished s"
| "sys_next checks s (AppCloses a) =
     (case sy_socks s a of None \<Rightarrow> None | Some c \<Rightarrow> Some (s\<lparr>sy_stopped := insert a (sy_stopped s)\<rparr>))"

definition sys_new :: "addr server \<Rightarrow> 'w system" where
  "sys_new v = \<lparr>sy_socks = Map.empty, sy_socks_box = (\<lambda>_. []), sy_stopped = {}, sy_server = v,
     sy_server_box = [], sy_up = [], sy_node = node_new, sy_taken = 0, sy_sent = [], sy_got = [],
     sy_app = (\<lambda>_. []), sy_closed = False\<rparr>"

inductive sys_run :: "bool \<Rightarrow> addr server \<Rightarrow> 'w sys_event list \<Rightarrow> 'w system \<Rightarrow> bool"
  for checks v where
  start: "sys_run checks v [] (sys_new v)"
| step: "sys_run checks v es s \<Longrightarrow> sys_next checks s e = Some s' \<Longrightarrow> sys_run checks v (es @ [e]) s'"

fun sys_exec :: "bool \<Rightarrow> 'w system \<Rightarrow> 'w sys_event list \<Rightarrow> 'w system option" where
  "sys_exec checks s [] = Some s"
| "sys_exec checks s (e # es) = Option.bind (sys_next checks s e) (\<lambda>s'. sys_exec checks s' es)"

lemma sys_run_exec: "sys_run checks v es s \<Longrightarrow> sys_exec checks s fs = Some s' \<Longrightarrow> sys_run checks v (es @ fs) s'"
proof (induction fs arbitrary: es s)
  case (Cons e fs)
  then obtain s1 where "sys_next checks s e = Some s1" "sys_exec checks s1 fs = Some s'"
    by (auto simp: bind_eq_Some_conv)
  with Cons.IH [of "es @ [e]" s1] Cons.prems(1) show ?case by (auto intro: sys_run.step)
qed simp

lemmas sys_run_start = sys_run_exec [OF sys_run.start, simplified]

end
