(* ===== verification/Tunnel_Invariants.thy ===== *)
theory Tunnel_Invariants
  imports Tunnel_System
begin

text \<open>
  The invariants of the whole system, one for each thing that is conserved: the node's own run,
  the queue of requests, the routing of responses and the data of each connection.
\<close>

section \<open>What is observed of a run\<close>

definition is_beat :: "proxy_request \<Rightarrow> bool" where
  "is_beat q \<longleftrightarrow> (\<exists>i. prq_request q = PTHeartbeat i)"

fun box_requests :: "'addr server_msg list \<Rightarrow> proxy_request list" where
  "box_requests [] = []"
| "box_requests (SVRequest q # ms) = q # box_requests ms"
| "box_requests (_ # ms) = box_requests ms"

text \<open>The replies an application gets for connector responses, and those it got.\<close>

fun conn_replies :: "connector_response list \<Rightarrow> socks_response list" where
  "conn_replies [] = []"
| "conn_replies (CRSucceeded # rs) = SRespTarget succeeded_response # conn_replies rs"
| "conn_replies (CRFailed # rs) = SRespTarget refused_response # conn_replies rs"
| "conn_replies (CRData d # rs) = SRespData d # conn_replies rs"
| "conn_replies (CRAbort # rs) = conn_replies rs"

definition told :: "socks_response list \<Rightarrow> socks_response list" where
  "told = filter (\<lambda>r. \<forall>m. r \<noteq> SRespNegotiation m)"

text \<open>The responses for an identifier, as what they mean.\<close>

fun meanings :: "u16 \<Rightarrow> proxy_response list \<Rightarrow> connector_response list" where
  "meanings u [] = []"
| "meanings u (r # rs) =
     (case response_meaning (prs_response r) of
        None \<Rightarrow> meanings u rs
      | Some c \<Rightarrow> if prs_uuid r = u then c # meanings u rs else meanings u rs)"

text \<open>The events of the server end, the connections made and the data of an application.\<close>

fun sys_reads :: "'w sys_event list \<Rightarrow> (u16 \<times> bytes option) list" where
  "sys_reads [] = []"
| "sys_reads (NodeStep e # es) = reads [e] @ sys_reads es"
| "sys_reads (_ # es) = sys_reads es"

fun ports :: "'w sys_event list \<Rightarrow> u16 list" where
  "ports [] = []"
| "ports (AppConnects u a # es) = u # ports es"
| "ports (_ # es) = ports es"

fun item_data :: "socks_request \<Rightarrow> bytes list" where
  "item_data (SReqData d) = [d]"
| "item_data _ = []"

fun app_data :: "addr \<Rightarrow> 'w sys_event list \<Rightarrow> bytes list" where
  "app_data a [] = []"
| "app_data a (AppItem b now i # es) = (if a = b then item_data i else []) @ app_data a es"
| "app_data a (_ # es) = app_data a es"

definition sys_full :: "'w sys_event list \<Rightarrow> bool" where
  "sys_full es \<longleftrightarrow> (\<forall>env. RequestArrives env \<in> set es \<longrightarrow> full_env env)"

lemma box_requests_append [simp]:
  "box_requests (ms @ ns) = box_requests ms @ box_requests ns"
  "box_requests (map SVRequest qs) = qs"
  "box_requests (heartbeats_of os) = []"
  by (induction ms rule: box_requests.induct) (simp_all, induction qs, simp_all add: heartbeats_of_def,
      induction os, simp_all)

lemma conn_replies_append [simp]: "conn_replies (xs @ ys) = conn_replies xs @ conn_replies ys"
  by (induction xs rule: conn_replies.induct) auto

lemma told_simps [simp]:
  "told (xs @ ys) = told xs @ told ys" "told [] = []"
  "told (SRespData d # xs) = SRespData d # told xs"
  "told (SRespTarget t # xs) = SRespTarget t # told xs"
  "told (SRespNegotiation m # xs) = told xs"
  by (simp_all add: told_def)

lemma meanings_append [simp]: "meanings u (rs @ qs) = meanings u rs @ meanings u qs"
  by (induction rs) (auto split: option.splits)

lemma reads_app [simp]: "reads (es @ fs) = reads es @ reads fs"
  by (rule events_append)

lemma sys_events_append [simp]:
  "sys_reads (es @ fs) = sys_reads es @ sys_reads fs" "ports (es @ fs) = ports es @ ports fs"
  "app_data a (es @ fs) = app_data a es @ app_data a fs"
  "sys_full (es @ fs) \<longleftrightarrow> sys_full es \<and> sys_full fs"
proof -
  show "sys_full (es @ fs) \<longleftrightarrow> sys_full es \<and> sys_full fs" by (auto simp: sys_full_def)
  show "sys_reads (es @ fs) = sys_reads es @ sys_reads fs"
    by (induction es rule: sys_reads.induct) auto
  show "ports (es @ fs) = ports es @ ports fs" by (induction es rule: ports.induct) auto
  show "app_data a (es @ fs) = app_data a es @ app_data a fs"
    by (induction a es rule: app_data.induct) auto
qed

section \<open>What a call does\<close>

text \<open>From here on the handlers are reasoned about by the lemmas of this section.\<close>

lemma socks_call_relay:
  assumes "socks_client_handle checks now c m = Inr (c', os)"
  shows "os = relay (sc_uuid c) m \<and> sc_uuid c' = sc_uuid c"
proof (cases m)
  case (FromServer r)
  with assms show ?thesis
    by (cases r) (auto simp: handle_connector_response_def record_rtt_Some bind_eq_Some_conv)
next
  case (FromApp i)
  with assms show ?thesis
    by (cases i) (auto simp: handle_socks_request_def Let_def bind_eq_Some_conv)
qed

lemma relay_told:
  "told (app_replies (relay u (FromApp i))) = []"
  "told (app_replies (relay u (FromServer r))) = conn_replies [r]"
  by (cases i; simp) (cases r; simp)

lemma relay_requests:
  "socks_requests (relay u (FromServer r)) = []"
  "req_data v (socks_requests (relay u (FromApp i))) = (if v = u then item_data i else [])"
  "q \<in> set (socks_requests (relay u m)) \<Longrightarrow> \<not> is_beat q"
proof -
  show "socks_requests (relay u (FromServer r)) = []" by (cases r) simp_all
  show "req_data v (socks_requests (relay u (FromApp i))) = (if v = u then item_data i else [])"
    by (cases i) (simp_all add: proxy_request_new_def)
  show "q \<in> set (socks_requests (relay u m)) \<Longrightarrow> \<not> is_beat q"
  proof (cases m)
    case (FromServer r)
    then show "q \<in> set (socks_requests (relay u m)) \<Longrightarrow> \<not> is_beat q" by (cases r) simp_all
  next
    case (FromApp i)
    then show "q \<in> set (socks_requests (relay u m)) \<Longrightarrow> \<not> is_beat q"
      by (cases i) (auto simp: is_beat_def)
  qed
qed

declare socks_client_handle.simps [simp del]

text \<open>What a call of the tunnel actor does, by the kind of message.\<close>

lemma server_call_request:
  "server_handle checks clock v (SVRequest q) = Inr (v', os) \<longleftrightarrow> v' = v \<and> os = [WriteRequest q]"
  by (auto simp: server_handle_request_def)

lemma server_call_heartbeat:
  assumes "server_handle checks clock v SVHeartbeat = Inr (v', os)"
  shows "sv_clients v' = sv_clients v \<and> (\<exists>q. is_beat q \<and> os = [WriteRequest q])"
  using assms by (auto simp: server_handle_heartbeat_def Let_def bind_eq_Some_conv is_beat_def)

lemma server_call_tick:
  assumes "server_handle checks clock v SVTick = Inr (v', os)"
  shows "v' = v \<and> requests_of os = [] \<and> sends_of os = [] \<and> set (heartbeats_of os) \<subseteq> {SVHeartbeat}"
  using assms by (auto simp: server_tick_def bind_eq_Some_conv heartbeats_of_def)

lemma server_call_response:
  assumes "server_handle checks clock v (SVResponse r) = Inr (v', os)"
  shows "sv_clients v' = sv_clients v \<and>
    (case response_meaning (prs_response r) of
       None \<Rightarrow> os = []
     | Some c \<Rightarrow> \<exists>a. sv_clients v (prs_uuid r) = Some a \<and> os = [SendClient a c])"
  using assms by (auto simp: handle_response_cases split: if_splits proxy_transfer.splits option.splits)

lemma server_call_connected:
  "server_handle checks clock v (SVConnected u a) = Inr (v', os) \<longleftrightarrow>
     v' = v\<lparr>sv_clients := (sv_clients v)(u \<mapsto> a)\<rparr> \<and> os = [StartClient u a]"
  by (auto simp: server_handle_connected_def)

lemma server_call_finished:
  "server_handle checks clock v SVFinished = Inr (v', os) \<longleftrightarrow> v' = v \<and> os = [StopServer]"
  by (auto simp: server_finished_def)

lemma post_sends_simps [simp]:
  "post_sends [] box = box"
  "post_sends [(a, c)] box = box(a := box a @ [c])"
  by (auto simp: post_sends_def)

lemma heartbeats_simps [simp]:
  "heartbeats_of [] = []" "heartbeats_of [WriteRequest q] = []" "heartbeats_of [SendClient a c] = []"
  "heartbeats_of [StartClient u a] = []" "heartbeats_of [StopServer] = []"
  by (simp_all add: heartbeats_of_def)

lemma server_call_response_quiet:
  assumes "server_handle checks clock v (SVResponse r) = Inr (v', os)"
  shows "requests_of os = [] \<and> heartbeats_of os = []"
  using server_call_response [OF assms] by (auto split: option.splits)

lemma socks_call_parts:
  assumes "socks_call checks a now m s = Some s'"
  obtains c c' X where "sy_socks s a = Some c" and "sc_uuid c' = sc_uuid c"
    and "s' = s\<lparr>sy_socks := (sy_socks s)(a \<mapsto> c'), sy_stopped := X,
      sy_server_box := sy_server_box s @ map SVRequest (socks_requests (relay (sc_uuid c) m)),
      sy_sent := sy_sent s @ socks_requests (relay (sc_uuid c) m),
      sy_app := (sy_app s)(a := sy_app s a @ app_replies (relay (sc_uuid c) m))\<rparr>"
proof -
  from assms obtain c c' os where c: "sy_socks s a = Some c"
    and h: "socks_client_handle checks now c m = Inr (c', os)"
    by (auto simp: socks_call_def split: option.splits if_splits sum.splits)
  from socks_call_relay [OF h] have "os = relay (sc_uuid c) m" "sc_uuid c' = sc_uuid c" by auto
  then have "s' = s\<lparr>sy_socks := (sy_socks s)(a \<mapsto> c'),
      sy_stopped := (if list_ex is_stop os then insert a (sy_stopped s) else sy_stopped s),
      sy_server_box := sy_server_box s @ map SVRequest (socks_requests (relay (sc_uuid c) m)),
      sy_sent := sy_sent s @ socks_requests (relay (sc_uuid c) m),
      sy_app := (sy_app s)(a := sy_app s a @ app_replies (relay (sc_uuid c) m))\<rparr>"
    using assms c h by (simp add: socks_call_def split: if_splits)
  with that [OF c \<open>sc_uuid c' = sc_uuid c\<close>] show thesis by blast
qed

lemma server_call_parts:
  assumes "server_call checks clock m s = Some s'"
  obtains v os X where "server_handle checks clock (sy_server s) m = Inr (v, os)"
    and "s' = s\<lparr>sy_server := v, sy_server_box := sy_server_box s @ heartbeats_of os,
      sy_up := sy_up s @ requests_of os, sy_socks_box := post_sends (sends_of os) (sy_socks_box s),
      sy_closed := X\<rparr>"
  using assms by (auto simp: server_call_def split: if_splits sum.splits)

declare server_handle.simps [simp del]

section \<open>The queue of requests\<close>

text \<open>
  Apart from heartbeats, what the server end got, what is under way and what waits in the
  tunnel actor's mailbox is what the SOCKS actors sent.
\<close>

definition queue_inv :: "'w system \<Rightarrow> bool" where
  "queue_inv s \<longleftrightarrow>
     filter (\<lambda>q. \<not> is_beat q) (sy_got s @ sy_up s) @ box_requests (sy_server_box s) = sy_sent s \<and>
     (\<forall>m \<in> set (sy_server_box s). m = SVHeartbeat \<or> (\<exists>q. m = SVRequest q \<and> \<not> is_beat q))"

lemma queue_inv_socks:
  assumes "queue_inv s" and "socks_call checks a now m (s\<lparr>sy_socks_box := b\<rparr>) = Some s'"
  shows "queue_inv s'"
  by (rule socks_call_parts [OF assms(2)])
    (use assms(1) in \<open>auto simp: queue_inv_def dest: relay_requests(3)\<close>)

lemma queue_inv_server:
  assumes "queue_inv s" and "server_call checks clock m (s\<lparr>sy_taken := k\<rparr>) = Some s'"
    and "m = SVTick \<or> m = SVFinished \<or> (\<exists>r. m = SVResponse r) \<or> (\<exists>u a. m = SVConnected u a)"
  shows "queue_inv s'"
proof (rule server_call_parts [OF assms(2)])
  fix v os X
  assume h: "server_handle checks clock (sy_server (s\<lparr>sy_taken := k\<rparr>)) m = Inr (v, os)"
    and s': "s' = s\<lparr>sy_taken := k, sy_server := v,
      sy_server_box := sy_server_box (s\<lparr>sy_taken := k\<rparr>) @ heartbeats_of os,
      sy_up := sy_up (s\<lparr>sy_taken := k\<rparr>) @ requests_of os,
      sy_socks_box := post_sends (sends_of os) (sy_socks_box (s\<lparr>sy_taken := k\<rparr>)), sy_closed := X\<rparr>"
  from assms(3) h have "requests_of os = []" "set (heartbeats_of os) \<subseteq> {SVHeartbeat}"
    by (auto dest: server_call_tick server_call_response_quiet simp: server_call_connected server_call_finished)
  with assms(1) show ?thesis by (auto simp: queue_inv_def s')
qed

lemma queue_inv_mailbox:
  assumes "queue_inv s" and "sy_server_box s = m # ms"
    and "server_call checks clock m (s\<lparr>sy_server_box := ms\<rparr>) = Some s'"
  shows "queue_inv s'"
proof (rule server_call_parts [OF assms(3)])
  fix v os X
  assume h: "server_handle checks clock (sy_server (s\<lparr>sy_server_box := ms\<rparr>)) m = Inr (v, os)"
    and s': "s' = s\<lparr>sy_server_box := ms, sy_server := v,
      sy_server_box := sy_server_box (s\<lparr>sy_server_box := ms\<rparr>) @ heartbeats_of os,
      sy_up := sy_up (s\<lparr>sy_server_box := ms\<rparr>) @ requests_of os,
      sy_socks_box := post_sends (sends_of os) (sy_socks_box (s\<lparr>sy_server_box := ms\<rparr>)), sy_closed := X\<rparr>"
  from assms(1,2) consider "m = SVHeartbeat" | q where "m = SVRequest q" "\<not> is_beat q"
    by (auto simp: queue_inv_def)
  then show ?thesis
  proof cases
    case 1
    with h have "\<exists>q. is_beat q \<and> os = [WriteRequest q]" by (auto dest: server_call_heartbeat)
    with 1 assms(1,2) show ?thesis by (auto simp: queue_inv_def s')
  next
    case 2
    with h have "os = [WriteRequest q]" by (simp only: server_call_request)
    with 2 assms(1,2) show ?thesis by (auto simp: queue_inv_def s')
  qed
qed

lemma queue_inv_step:
  assumes "queue_inv s" and "sys_next checks s e = Some s'"
  shows "queue_inv s'"
proof (cases e)
  case (AppConnects u a)
  with assms obtain z where "server_call checks (\<lambda>_. 0) (SVConnected u a) s = Some z"
    and s': "s' = z\<lparr>sy_socks := (sy_socks z)(a \<mapsto> socks_client_new u)\<rparr>"
    by (auto split: if_splits)
  with queue_inv_server [OF assms(1), where k = "sy_taken s" and m = "SVConnected u a"]
  have "queue_inv z" by auto
  then show ?thesis by (simp add: queue_inv_def s')
next
  case (AppItem a now i)
  with assms queue_inv_socks [OF assms(1), where b = "sy_socks_box s"] show ?thesis by auto
next
  case (SocksMailbox a now)
  with assms show ?thesis by (auto split: list.splits intro: queue_inv_socks)
next
  case (TimerTick clock)
  with assms queue_inv_server [OF assms(1), where k = "sy_taken s" and m = SVTick] show ?thesis by auto
next
  case (ServerMailbox clock)
  with assms show ?thesis by (auto split: list.splits intro: queue_inv_mailbox)
next
  case (ResponseArrives clock)
  with assms show ?thesis
    by (auto split: if_splits intro: queue_inv_server [OF assms(1), where k = "Suc (sy_taken s)"])
next
  case (RequestArrives env)
  with assms show ?thesis
    by (auto simp: queue_inv_def simp del: node_next.simps split: list.splits if_splits)
next
  case (NodeStep f)
  with assms show ?thesis
    by (auto simp: queue_inv_def simp del: node_next.simps split: node_event.splits)
next
  case TunnelCloses
  with assms queue_inv_server [OF assms(1), where k = "sy_taken s" and m = SVFinished] show ?thesis by auto
next
  case (AppCloses a)
  with assms show ?thesis by (auto simp: queue_inv_def split: option.splits)
qed

section \<open>The routing of responses\<close>

definition responses_taken :: "'w system \<Rightarrow> proxy_response list" where
  "responses_taken s = take (sy_taken s) (nd_sent (sy_node s))"

definition uuid_at :: "'w system \<Rightarrow> addr \<Rightarrow> u16 option" where
  "uuid_at s a = map_option sc_uuid (sy_socks s a)"

text \<open>
  When no port is used twice, the registered clients are the SOCKS actors, and what an
  application was told together with what waits in its actor's mailbox is the responses taken
  for its identifier.
\<close>

definition route_inv :: "'w system \<Rightarrow> bool" where
  "route_inv s \<longleftrightarrow>
     sy_taken s \<le> length (nd_sent (sy_node s)) \<and>
     (\<forall>u a. sv_clients (sy_server s) u = Some a \<longleftrightarrow> uuid_at s a = Some u) \<and>
     (\<forall>a. uuid_at s a = None \<longrightarrow> sy_socks_box s a = [] \<and> sy_app s a = []) \<and>
     (\<forall>u. (\<forall>a. uuid_at s a \<noteq> Some u) \<longrightarrow> meanings u (responses_taken s) = []) \<and>
     (\<forall>a u. uuid_at s a = Some u \<longrightarrow>
        told (sy_app s a) @ conn_replies (sy_socks_box s a) =
          conn_replies (meanings u (responses_taken s)))"

lemma conn_replies_Cons: "conn_replies (r # rs) = conn_replies [r] @ conn_replies rs"
  using conn_replies_append [of "[r]" rs] by simp

text \<open>A call of a SOCKS actor changes neither the registered clients nor who is alive.\<close>

lemma route_inv_told:
  assumes "route_inv s" and "uuid_at s a \<noteq> None" and "uuid_at s' = uuid_at s"
    and "sy_server s' = sy_server s" "sy_taken s' = sy_taken s" "sy_node s' = sy_node s"
    and "\<forall>b. b \<noteq> a \<longrightarrow> sy_app s' b = sy_app s b \<and> sy_socks_box s' b = sy_socks_box s b"
    and "told (sy_app s' a) @ conn_replies (sy_socks_box s' a) =
      told (sy_app s a) @ conn_replies (sy_socks_box s a)"
  shows "route_inv s'"
proof -
  have "told (sy_app s' b) @ conn_replies (sy_socks_box s' b) =
      told (sy_app s b) @ conn_replies (sy_socks_box s b)" for b
    using assms(7,8) by (cases "b = a") auto
  moreover have "uuid_at s b = None \<longrightarrow> sy_socks_box s' b = sy_socks_box s b \<and> sy_app s' b = sy_app s b" for b
    using assms(2,7) by (cases "b = a") auto
  ultimately show ?thesis
    using assms(1) by (simp add: route_inv_def responses_taken_def assms(3-6))
qed

lemma route_inv_item:
  assumes "route_inv s" and "socks_call checks a now (FromApp i) s = Some s'"
  shows "route_inv s'"
  by (rule socks_call_parts [OF assms(2)], rule route_inv_told [OF assms(1)])
    (auto simp: relay_told uuid_at_def)

lemma route_inv_mail:
  assumes "route_inv s" and "sy_socks_box s a = r # rs"
    and "socks_call checks a now (FromServer r) (s\<lparr>sy_socks_box := (sy_socks_box s)(a := rs)\<rparr>) = Some s'"
  shows "route_inv s'"
  by (rule socks_call_parts [OF assms(3)], rule route_inv_told [OF assms(1)])
    (auto simp: relay_told uuid_at_def assms(2) conn_replies_Cons [of r rs])

lemma route_inv_quiet:
  assumes "route_inv s" and "server_call checks clock m (s\<lparr>sy_server_box := b\<rparr>) = Some s'"
    and "m = SVTick \<or> m = SVHeartbeat \<or> m = SVFinished \<or> (\<exists>q. m = SVRequest q)"
  shows "route_inv s'"
proof (rule server_call_parts [OF assms(2)])
  fix v os X
  assume h: "server_handle checks clock (sy_server (s\<lparr>sy_server_box := b\<rparr>)) m = Inr (v, os)"
    and s': "s' = s\<lparr>sy_server_box := b, sy_server := v,
      sy_server_box := sy_server_box (s\<lparr>sy_server_box := b\<rparr>) @ heartbeats_of os,
      sy_up := sy_up (s\<lparr>sy_server_box := b\<rparr>) @ requests_of os,
      sy_socks_box := post_sends (sends_of os) (sy_socks_box (s\<lparr>sy_server_box := b\<rparr>)), sy_closed := X\<rparr>"
  from assms(3) h have "sv_clients v = sv_clients (sy_server s)" "sends_of os = []"
    by (auto dest: server_call_tick server_call_heartbeat simp: server_call_request server_call_finished)
  with assms(1) show ?thesis by (simp add: route_inv_def responses_taken_def uuid_at_def s')
qed

lemma route_inv_response:
  assumes "route_inv s" and k: "sy_taken s < length (nd_sent (sy_node s))"
    and "server_call checks clock (SVResponse (nd_sent (sy_node s) ! sy_taken s))
      (s\<lparr>sy_taken := Suc (sy_taken s)\<rparr>) = Some s'"
  shows "route_inv s'"
proof (rule server_call_parts [OF assms(3)])
  let ?r = "nd_sent (sy_node s) ! sy_taken s" and ?t = "s\<lparr>sy_taken := Suc (sy_taken s)\<rparr>"
  fix v os X
  assume h: "server_handle checks clock (sy_server ?t) (SVResponse ?r) = Inr (v, os)"
    and s': "s' = s\<lparr>sy_taken := Suc (sy_taken s), sy_server := v,
      sy_server_box := sy_server_box ?t @ heartbeats_of os, sy_up := sy_up ?t @ requests_of os,
      sy_socks_box := post_sends (sends_of os) (sy_socks_box ?t), sy_closed := X\<rparr>"
  have taken: "responses_taken s' = responses_taken s @ [?r]"
    using k by (simp add: responses_taken_def s' take_Suc_conv_app_nth)
  have "sy_server ?t = sy_server s" by simp
  with h have "server_handle checks clock (sy_server s) (SVResponse ?r) = Inr (v, os)" by simp
  from server_call_response [OF this] have v: "sv_clients v = sv_clients (sy_server s)"
    and m: "case response_meaning (prs_response ?r) of None \<Rightarrow> os = []
      | Some c \<Rightarrow> \<exists>a. sv_clients (sy_server s) (prs_uuid ?r) = Some a \<and> os = [SendClient a c]"
    by (simp_all only:)
  have at: "uuid_at s' = uuid_at s" by (simp add: s' uuid_at_def fun_eq_iff)
  show ?thesis
  proof (cases "response_meaning (prs_response ?r)")
    case None
    with m v taken at assms(1) k show ?thesis by (simp add: route_inv_def s')
  next
    case (Some c)
    with m obtain a where a: "sv_clients (sy_server s) (prs_uuid ?r) = Some a" "os = [SendClient a c]" by auto
    then have own: "uuid_at s b = Some (prs_uuid ?r) \<longleftrightarrow> b = a" for b
      using assms(1) unfolding route_inv_def by (metis option.inject)
    have box: "sy_socks_box s' = (sy_socks_box s)(a := sy_socks_box s a @ [c])" "sy_app s' = sy_app s"
      by (simp_all add: s' a(2))
    have "told (sy_app s' b) @ conn_replies (sy_socks_box s' b) =
        conn_replies (meanings u (responses_taken s'))" if "uuid_at s b = Some u" for b u
    proof (cases "b = a")
      case True
      with own [of a] that have "u = prs_uuid ?r" by simp
      with True that assms(1) Some show ?thesis
        by (simp add: box taken route_inv_def flip: append_assoc)
    next
      case False
      with own [of b] that have "u \<noteq> prs_uuid ?r" by auto
      with False that assms(1) Some show ?thesis by (simp add: box taken route_inv_def)
    qed
    moreover have "sy_socks_box s' b = [] \<and> sy_app s' b = []" if "uuid_at s b = None" for b
      using that own [of b] assms(1) by (auto simp: box route_inv_def)
    moreover have "meanings u (responses_taken s') = []" if "\<forall>b. uuid_at s b \<noteq> Some u" for u
      using that own assms(1) Some by (auto simp: taken route_inv_def)
    moreover have "sy_taken s' \<le> length (nd_sent (sy_node s'))"
      "sv_clients (sy_server s') = sv_clients (sy_server s)" using k v by (simp_all add: s')
    ultimately show ?thesis using assms(1) by (simp add: route_inv_def at)
  qed
qed

text \<open>The server end only ever adds to what it sent.\<close>

lemma node_sent_grows:
  assumes "node_next n e = Some n'"
  shows "\<exists>rs. nd_sent n' = nd_sent n @ rs"
proof (cases e)
  case (NRequest env q)
  with assms node_call_Some [of env _ n n'] show ?thesis by auto
next
  case (NMailbox env)
  with assms obtain m ms where "node_call env m (n\<lparr>nd_mailbox := ms\<rparr>) = Some n'" by (auto split: list.splits)
  from node_call_Some [OF this] show ?thesis by simp
next
  case (NFinished env)
  with assms node_call_Some [of env _ n n'] show ?thesis by auto
qed (use assms in \<open>auto split: if_splits prod.splits\<close>)

lemma route_inv_node:
  assumes "route_inv s" and "node_next (sy_node s) e = Some n" and "sy_node s' = n"
    and "sy_socks s' = sy_socks s" "sy_socks_box s' = sy_socks_box s" "sy_app s' = sy_app s"
    and "sy_server s' = sy_server s" "sy_taken s' = sy_taken s"
  shows "route_inv s'"
proof -
  from node_sent_grows [OF assms(2)] obtain rs where rs: "nd_sent n = nd_sent (sy_node s) @ rs" by blast
  have "sy_taken s \<le> length (nd_sent (sy_node s))" using assms(1) by (simp add: route_inv_def)
  with rs have "responses_taken s' = responses_taken s" by (simp add: responses_taken_def assms(3,8))
  moreover have "uuid_at s' = uuid_at s" by (simp add: uuid_at_def assms(4) fun_eq_iff)
  ultimately show ?thesis using assms(1) rs by (simp add: route_inv_def assms(3-8))
qed

lemma route_inv_connect:
  assumes "route_inv s" and "sys_next checks s (AppConnects u a) = Some s'"
    and "\<forall>b. uuid_at s b \<noteq> Some u"
  shows "route_inv s'"
proof -
  from assms(2) obtain z where z: "server_call checks (\<lambda>_. 0) (SVConnected u a) s = Some z"
    and s': "s' = z\<lparr>sy_socks := (sy_socks z)(a \<mapsto> socks_client_new u)\<rparr>" and free: "uuid_at s a = None"
    by (auto simp: uuid_at_def split: if_splits)
  from z obtain X where
    zs: "z = s\<lparr>sy_server := (sy_server s)\<lparr>sv_clients := (sv_clients (sy_server s))(u \<mapsto> a)\<rparr>, sy_closed := X\<rparr>"
    by (rule server_call_parts) (auto simp: server_call_connected)
  have at: "uuid_at s' = (uuid_at s)(a \<mapsto> u)"
    by (simp add: s' zs uuid_at_def fun_eq_iff socks_client_new_def)
  have same: "responses_taken s' = responses_taken s" "sy_socks_box s' = sy_socks_box s"
    "sy_app s' = sy_app s" "sy_taken s' = sy_taken s" "sy_node s' = sy_node s"
    "sv_clients (sy_server s') = (sv_clients (sy_server s))(u \<mapsto> a)"
    by (simp_all add: s' zs responses_taken_def)
  have "sv_clients (sy_server s) v = Some b \<longleftrightarrow> uuid_at s b = Some v" for v b
    using assms(1) by (simp add: route_inv_def)
  then have "((sv_clients (sy_server s))(u \<mapsto> a)) v = Some b \<longleftrightarrow> ((uuid_at s)(a \<mapsto> u)) b = Some v" for v b
    using assms(3) free by auto
  moreover have "meanings v (responses_taken s) = []" if "\<forall>b. uuid_at s' b \<noteq> Some v" for v
  proof -
    have "uuid_at s b \<noteq> Some v" for b using spec [OF that, of b] free by (cases "b = a") (auto simp: at)
    with assms(1) show ?thesis by (simp add: route_inv_def)
  qed
  moreover have "told (sy_app s b) @ conn_replies (sy_socks_box s b) =
      conn_replies (meanings v (responses_taken s))" if "uuid_at s' b = Some v" for b v
    using that assms(1,3) free by (cases "b = a") (auto simp: at route_inv_def)
  moreover have "sy_socks_box s b = [] \<and> sy_app s b = []" if "uuid_at s' b = None" for b
    using that assms(1) by (auto simp: at route_inv_def split: if_splits)
  ultimately show ?thesis using assms(1) by (simp add: route_inv_def same at)
qed

lemma route_inv_step:
  assumes "route_inv s" and "sys_next checks s e = Some s'"
    and "\<forall>u a. e = AppConnects u a \<longrightarrow> (\<forall>b. uuid_at s b \<noteq> Some u)" and "queue_inv s"
  shows "route_inv s'"
proof (cases e)
  case (AppConnects u a)
  with assms show ?thesis by (auto intro: route_inv_connect)
next
  case (AppItem a now i)
  with assms show ?thesis by (auto intro: route_inv_item)
next
  case (SocksMailbox a now)
  with assms show ?thesis by (auto split: list.splits intro: route_inv_mail)
next
  case (TimerTick clock)
  with assms route_inv_quiet [OF assms(1), where b = "sy_server_box s" and m = SVTick] show ?thesis by auto
next
  case (ServerMailbox clock)
  with assms(2) obtain m ms where m: "sy_server_box s = m # ms"
    "server_call checks clock m (s\<lparr>sy_server_box := ms\<rparr>) = Some s'" by (auto split: list.splits)
  show ?thesis
  proof (cases "m = SVTick \<or> m = SVHeartbeat \<or> (\<exists>q. m = SVRequest q)")
    case True
    with route_inv_quiet [OF assms(1) m(2)] show ?thesis by blast
  next
    case False
    with assms(4) m(1) show ?thesis by (auto simp: queue_inv_def)
  qed
next
  case (ResponseArrives clock)
  with assms show ?thesis by (auto split: if_splits intro: route_inv_response)
next
  case (RequestArrives env)
  with assms(2) obtain q qs n where "node_next (sy_node s) (NRequest env q) = Some n"
    "s' = s\<lparr>sy_node := n, sy_up := qs, sy_got := sy_got s @ [q]\<rparr>"
    by (auto simp del: node_next.simps split: list.splits)
  with route_inv_node [OF assms(1)] show ?thesis by (simp del: node_next.simps)
next
  case (NodeStep f)
  with assms(2) obtain n where "node_next (sy_node s) f = Some n" "s' = s\<lparr>sy_node := n\<rparr>"
    by (auto simp del: node_next.simps split: node_event.splits)
  with route_inv_node [OF assms(1)] show ?thesis by simp
next
  case TunnelCloses
  with assms route_inv_quiet [OF assms(1), where b = "sy_server_box s" and m = SVFinished] show ?thesis by auto
next
  case (AppCloses a)
  with assms(1,2) show ?thesis
    by (auto simp: route_inv_def responses_taken_def uuid_at_def split: option.splits)
qed

section \<open>The data of the applications\<close>

text \<open>
  As long as no port is used twice, the data requests sent under an identifier are the data the
  application of that connection gave.
\<close>

definition data_inv :: "'w sys_event list \<Rightarrow> 'w system \<Rightarrow> bool" where
  "data_inv es s \<longleftrightarrow>
     (\<forall>a. uuid_at s a = None \<longrightarrow> app_data a es = []) \<and>
     (\<forall>u. (\<forall>a. uuid_at s a \<noteq> Some u) \<longrightarrow> req_data u (sy_sent s) = []) \<and>
     (\<forall>a u. uuid_at s a = Some u \<longrightarrow> u \<in> set (ports es) \<and> req_data u (sy_sent s) = app_data a es)"

lemma server_call_keeps:
  assumes "server_call checks clock m s = Some s'"
  shows "uuid_at s' = uuid_at s \<and> sy_sent s' = sy_sent s \<and> sy_got s' = sy_got s \<and> sy_node s' = sy_node s"
  by (rule server_call_parts [OF assms]) (simp add: uuid_at_def fun_eq_iff)

lemma data_inv_quiet:
  assumes "data_inv es s" and "uuid_at s' = uuid_at s" "sy_sent s' = sy_sent s"
    and "ports [e] = []" "\<forall>a. app_data a [e] = []"
  shows "data_inv (es @ [e]) s'"
  using assms by (simp add: data_inv_def)

lemma uuid_at_inj: "route_inv s \<Longrightarrow> uuid_at s a = Some u \<Longrightarrow> uuid_at s b = Some u \<Longrightarrow> a = b"
  unfolding route_inv_def by (metis option.inject)

lemma data_inv_item:
  assumes "data_inv es s" and "route_inv s" and "socks_call checks a now (FromApp i) s = Some s'"
  shows "data_inv (es @ [AppItem a now i]) s'"
proof (rule socks_call_parts [OF assms(3)])
  fix c c' X
  assume c: "sy_socks s a = Some c" "sc_uuid c' = sc_uuid c"
    and s': "s' = s\<lparr>sy_socks := (sy_socks s)(a \<mapsto> c'), sy_stopped := X,
      sy_server_box := sy_server_box s @ map SVRequest (socks_requests (relay (sc_uuid c) (FromApp i))),
      sy_sent := sy_sent s @ socks_requests (relay (sc_uuid c) (FromApp i)),
      sy_app := (sy_app s)(a := sy_app s a @ app_replies (relay (sc_uuid c) (FromApp i)))\<rparr>"
  have at: "uuid_at s' = uuid_at s" and a: "uuid_at s a = Some (sc_uuid c)"
    using c by (simp_all add: s' uuid_at_def fun_eq_iff)
  have "sc_uuid c \<noteq> u" if "uuid_at s b = Some u" "b \<noteq> a" for b u
    using uuid_at_inj [OF assms(2) a, of b] that by auto
  moreover have "sc_uuid c \<noteq> u" if "\<forall>b. uuid_at s b \<noteq> Some u" for u using that a by auto
  moreover have "req_data u (sy_sent s') = req_data u (sy_sent s) @ (if u = sc_uuid c then item_data i else [])" for u
    by (simp add: s' relay_requests)
  ultimately show ?thesis using assms(1) a by (auto simp: data_inv_def at)
qed

lemma data_inv_step:
  assumes "data_inv es s" and "route_inv s" and "sys_next checks s e = Some s'"
    and "\<forall>u a. e = AppConnects u a \<longrightarrow> u \<notin> set (ports es)"
  shows "data_inv (es @ [e]) s'"
proof (cases e)
  case (AppConnects u a)
  with assms(3) obtain z where z: "server_call checks (\<lambda>_. 0) (SVConnected u a) s = Some z"
    and s': "s' = z\<lparr>sy_socks := (sy_socks z)(a \<mapsto> socks_client_new u)\<rparr>" and free: "uuid_at s a = None"
    by (auto simp: uuid_at_def split: if_splits)
  from server_call_keeps [OF z] have at: "uuid_at s' = (uuid_at s)(a \<mapsto> u)" and "sy_sent s' = sy_sent s"
    by (auto simp: s' uuid_at_def fun_eq_iff socks_client_new_def)
  moreover have new: "uuid_at s b \<noteq> Some u" for b using assms(1,4) AppConnects by (auto simp: data_inv_def)
  moreover have "req_data v (sy_sent s) = []" if "\<forall>b. uuid_at s' b \<noteq> Some v" for v
  proof -
    have "uuid_at s b \<noteq> Some v" for b using spec [OF that, of b] free by (cases "b = a") (auto simp: at)
    with assms(1) show ?thesis by (simp add: data_inv_def)
  qed
  ultimately show ?thesis
    using assms(1) AppConnects free by (auto simp: data_inv_def split: if_splits)
next
  case (AppItem a now i)
  with assms show ?thesis by (auto intro: data_inv_item)
next
  case (SocksMailbox a now)
  with assms(3) obtain r rs where
    c: "socks_call checks a now (FromServer r) (s\<lparr>sy_socks_box := (sy_socks_box s)(a := rs)\<rparr>) = Some s'"
    by (auto split: list.splits)
  show ?thesis
    by (rule socks_call_parts [OF c], rule data_inv_quiet [OF assms(1)])
      (auto simp: SocksMailbox uuid_at_def relay_requests)
next
  case (TimerTick clock)
  with assms show ?thesis by (intro data_inv_quiet [OF assms(1)]) (auto dest: server_call_keeps)
next
  case (ServerMailbox clock)
  with assms(3) obtain m ms where "server_call checks clock m (s\<lparr>sy_server_box := ms\<rparr>) = Some s'"
    by (auto split: list.splits)
  from server_call_keeps [OF this] ServerMailbox show ?thesis
    by (intro data_inv_quiet [OF assms(1)]) (auto simp: uuid_at_def fun_eq_iff)
next
  case (ResponseArrives clock)
  with assms(3) have "server_call checks clock (SVResponse (nd_sent (sy_node s) ! sy_taken s))
      (s\<lparr>sy_taken := Suc (sy_taken s)\<rparr>) = Some s'" by (auto split: if_splits)
  from server_call_keeps [OF this] ResponseArrives show ?thesis
    by (intro data_inv_quiet [OF assms(1)]) (auto simp: uuid_at_def fun_eq_iff)
next
  case (RequestArrives env)
  with assms(3) show ?thesis
    by (intro data_inv_quiet [OF assms(1)])
      (auto simp: uuid_at_def fun_eq_iff simp del: node_next.simps split: list.splits)
next
  case (NodeStep f)
  with assms(3) show ?thesis
    by (intro data_inv_quiet [OF assms(1)])
      (auto simp: uuid_at_def fun_eq_iff simp del: node_next.simps split: node_event.splits)
next
  case TunnelCloses
  with assms show ?thesis by (intro data_inv_quiet [OF assms(1)]) (auto dest: server_call_keeps)
next
  case (AppCloses a)
  with assms(3) show ?thesis
    by (intro data_inv_quiet [OF assms(1)]) (auto simp: uuid_at_def fun_eq_iff split: option.splits)
qed

section \<open>The server end within the system\<close>

definition node_part :: "'w sys_event list \<Rightarrow> 'w system \<Rightarrow> bool" where
  "node_part es s \<longleftrightarrow> (\<exists>nes. node_run nes (sy_node s) \<and> node_requests nes = sy_got s \<and>
     reads nes = sys_reads es \<and> (sys_full es \<longrightarrow> full_writes nes))"

lemma node_part_same:
  assumes "node_part es s" and "sy_node s' = sy_node s" "sy_got s' = sy_got s" and "sys_reads [e] = []"
  shows "node_part (es @ [e]) s'"
  using assms by (auto simp: node_part_def)

lemma node_part_step:
  assumes "node_part es s" and "sys_next checks s e = Some s'"
  shows "node_part (es @ [e]) s'"
proof (cases e)
  case (RequestArrives env)
  with assms(2) obtain q qs n where q: "node_next (sy_node s) (NRequest env q) = Some n"
    "s' = s\<lparr>sy_node := n, sy_up := qs, sy_got := sy_got s @ [q]\<rparr>"
    by (auto simp del: node_next.simps split: list.splits)
  from assms(1) obtain nes where "node_run nes (sy_node s)" "node_requests nes = sy_got s"
    "reads nes = sys_reads es" "sys_full es \<longrightarrow> full_writes nes" by (auto simp: node_part_def)
  with q show ?thesis
    unfolding node_part_def RequestArrives
    by (intro exI [of _ "nes @ [NRequest env q]"]) (auto intro: node_run.step simp: sys_full_def full_writes_def)
next
  case (NodeStep f)
  with assms(2) have f: "\<forall>env q. f \<noteq> NRequest env q"
    and n: "\<exists>n. node_next (sy_node s) f = Some n \<and> s' = s\<lparr>sy_node := n\<rparr>"
    by (auto simp del: node_next.simps split: node_event.splits)
  then have "node_requests [f] = []" "full_writes [f]" by (cases f; simp add: full_writes_def)+
  moreover from assms(1) obtain nes where "node_run nes (sy_node s)" "node_requests nes = sy_got s"
    "reads nes = sys_reads es" "sys_full es \<longrightarrow> full_writes nes" by (auto simp: node_part_def)
  ultimately show ?thesis
    using n unfolding node_part_def NodeStep
    by (intro exI [of _ "nes @ [f]"]) (auto intro: node_run.step)
next
  case (AppConnects u a)
  with assms show ?thesis
    by (intro node_part_same [OF assms(1)]) (auto dest: server_call_keeps split: if_splits)
next
  case (AppItem a now i)
  with assms show ?thesis
    by (intro node_part_same [OF assms(1)]) (auto elim!: socks_call_parts)
next
  case (SocksMailbox a now)
  with assms show ?thesis
    by (intro node_part_same [OF assms(1)]) (auto elim!: socks_call_parts split: list.splits)
next
  case (TimerTick clock)
  with assms show ?thesis by (intro node_part_same [OF assms(1)]) (auto dest: server_call_keeps)
next
  case (ServerMailbox clock)
  with assms show ?thesis
    by (intro node_part_same [OF assms(1)]) (auto dest: server_call_keeps split: list.splits)
next
  case (ResponseArrives clock)
  with assms show ?thesis
    by (intro node_part_same [OF assms(1)]) (auto dest: server_call_keeps split: if_splits)
next
  case TunnelCloses
  with assms show ?thesis by (intro node_part_same [OF assms(1)]) (auto dest: server_call_keeps)
next
  case (AppCloses a)
  with assms show ?thesis by (intro node_part_same [OF assms(1)]) (auto split: option.splits)
qed

section \<open>Every run\<close>

lemma system_start:
  "queue_inv (sys_new v)" "node_part [] (sys_new v)" "data_inv [] (sys_new v)"
  "sv_clients v = Map.empty \<Longrightarrow> route_inv (sys_new v)"
  by (auto simp: sys_new_def queue_inv_def node_part_def data_inv_def route_inv_def uuid_at_def node_new_def
      responses_taken_def sys_full_def full_writes_def intro!: exI [of _ "[]"] node_run.start [unfolded node_new_def])

lemma system_invariant:
  assumes "sys_run checks v es s" and "sv_clients v = Map.empty"
  shows "queue_inv s \<and> node_part es s \<and> (distinct (ports es) \<longrightarrow> route_inv s \<and> data_inv es s)"
  using assms(1)
proof (induction rule: sys_run.induct)
  case start
  show ?case using assms(2) by (simp add: system_start)
next
  case (step es s e s')
  have "route_inv s' \<and> data_inv (es @ [e]) s'" if d: "distinct (ports (es @ [e]))"
  proof -
    from d step.IH have inv: "route_inv s" "data_inv es s" "queue_inv s" by auto
    have new: "\<forall>u a. e = AppConnects u a \<longrightarrow> u \<notin> set (ports es)" using d by auto
    moreover from this inv(2) have "\<forall>u a. e = AppConnects u a \<longrightarrow> (\<forall>b. uuid_at s b \<noteq> Some u)"
      by (auto simp: data_inv_def)
    ultimately show ?thesis
      using route_inv_step [OF inv(1) step.hyps(2) _ inv(3)] data_inv_step [OF inv(2,1) step.hyps(2)] by blast
  qed
  with step show ?case by (auto intro: queue_inv_step node_part_step)
qed

end
