(* ===== verification/Tunnel_Delivery.thy ===== *)
theory Tunnel_Delivery
  imports Tunnel_Invariants
begin

text \<open>
  What an application can rely on, for the whole system in every interleaving: what it is sent,
  what becomes of what it sends, and what a port used twice does.
\<close>

section \<open>The data among messages\<close>

fun data_sent :: "socks_response list \<Rightarrow> bytes list" where
  "data_sent [] = []"
| "data_sent (SRespData d # rs) = d # data_sent rs"
| "data_sent (_ # rs) = data_sent rs"

fun conn_data :: "connector_response list \<Rightarrow> bytes list" where
  "conn_data [] = []"
| "conn_data (CRData d # rs) = d # conn_data rs"
| "conn_data (_ # rs) = conn_data rs"

definition read_data :: "u16 \<Rightarrow> (u16 \<times> bytes option) list \<Rightarrow> bytes list" where
  "read_data u xs = List.map_filter (\<lambda>(v, d). if v = u then d else None) xs"

definition resp_data :: "u16 \<Rightarrow> proxy_response list \<Rightarrow> bytes list" where
  "resp_data u rs = read_data u (stream_of rs)"

text \<open>The responses still on their way to the client, or waiting in the server end's mailbox.\<close>

definition under_way :: "'w system \<Rightarrow> proxy_response list" where
  "under_way s = drop (sy_taken s) (nd_sent (sy_node s)) @ pending (sy_node s)"

lemma data_sent_append: "data_sent (xs @ ys) = data_sent xs @ data_sent ys"
  by (induction xs rule: data_sent.induct) auto

lemma read_data_append: "read_data u (xs @ ys) = read_data u xs @ read_data u ys"
  by (simp add: read_data_def map_filter_def)

lemma data_sent_told: "data_sent (told xs) = data_sent xs"
  by (induction xs rule: data_sent.induct) (auto simp: told_def)

lemma data_sent_replies: "data_sent (conn_replies cs) = conn_data cs"
  by (induction cs rule: conn_replies.induct) auto

lemma conn_data_meanings: "conn_data (meanings u rs) = resp_data u rs"
  by (induction rs) (auto simp: resp_data_def read_data_def map_filter_def
      split: proxy_transfer.splits proxy_response_type.splits)

lemma req_data_filter: "req_data u (filter (\<lambda>q. \<not> is_beat q) qs) = req_data u qs"
  by (induction qs) (auto simp: is_beat_def split: proxy_transfer.splits)

section \<open>What a run conserves\<close>

lemma sent_to_application:
  assumes "sys_run checks v es s" and "sv_clients v = Map.empty" and "distinct (ports es)"
    and "uuid_at s a = Some u"
  shows "told (sy_app s a) @ conn_replies (sy_socks_box s a) =
    conn_replies (meanings u (take (sy_taken s) (nd_sent (sy_node s))))"
  using system_invariant [OF assms(1,2)] assms(3,4) by (simp add: route_inv_def responses_taken_def)

lemma node_of_system:
  assumes "sys_run checks v es s" and "sv_clients v = Map.empty"
  obtains nes where "node_run nes (sy_node s)" "node_requests nes = sy_got s" "reads nes = sys_reads es"
    "sys_full es \<Longrightarrow> full_writes nes"
  using system_invariant [OF assms] by (auto simp: node_part_def)

section \<open>Properties\<close>

text \<open>
  C1: what targets send is what applications get. Let no port be used twice. In every
  interleaving of all actors, both directions of the tunnel, the resolver and the readers, the
  data an application was sent, then what waits in its actor's mailbox, then what is under way in
  the tunnel and at the server end, is the data read from the connection with its identifier:
  complete, in order and nothing else.
\<close>

theorem application_gets_its_reads:
  assumes "sys_run checks v es s" and "sv_clients v = Map.empty" and "distinct (ports es)"
    and "uuid_at s a = Some u"
  shows "data_sent (sy_app s a) @ conn_data (sy_socks_box s a) @ resp_data u (under_way s) =
    read_data u (sys_reads es)"
proof -
  obtain nes where nes: "node_run nes (sy_node s)" "reads nes = sys_reads es"
    by (rule node_of_system [OF assms(1,2)])
  let ?sent = "nd_sent (sy_node s)"
  have "data_sent (sy_app s a) @ conn_data (sy_socks_box s a) = resp_data u (take (sy_taken s) ?sent)"
    using arg_cong [OF sent_to_application [OF assms], of data_sent]
    by (simp add: data_sent_append data_sent_told data_sent_replies conn_data_meanings)
  then have "data_sent (sy_app s a) @ conn_data (sy_socks_box s a) @ resp_data u (under_way s) =
      read_data u (stream_of (take (sy_taken s) ?sent @ drop (sy_taken s) ?sent @ pending (sy_node s)))"
    by (simp add: under_way_def resp_data_def read_data_append told_append del: append_take_drop_id flip: append_assoc)
  also have "\<dots> = read_data u (sys_reads es)"
    using node_inv_told(2) [OF nes(1)] by (simp add: nes(2) flip: append_assoc)
  finally show ?thesis .
qed

text \<open>
  C2: what an application sends is what the target gets. Let no port be used twice and the system
  take whole writes. In every interleaving the data written for its identifier, then what is under
  way in the tunnel, then what waits in the tunnel actor's mailbox, is the data the application
  gave: complete, in order and nothing else.
\<close>

theorem target_gets_its_data:
  assumes "sys_run checks v es s" and "sv_clients v = Map.empty" and "distinct (ports es)"
    and "sys_full es" and "uuid_at s a = Some u"
  shows "written_for u (nd_written (sy_node s)) @ req_data u (sy_up s) @
      req_data u (box_requests (sy_server_box s)) = app_data a es"
proof -
  obtain nes where nes: "node_run nes (sy_node s)" "node_requests nes = sy_got s" "full_writes nes"
    using node_of_system [OF assms(1,2)] assms(4) by metis
  have inv: "queue_inv s" "data_inv es s" using system_invariant [OF assms(1,2)] assms(3) by auto
  have "req_data u (sy_sent s) = req_data u (filter (\<lambda>q. \<not> is_beat q) (sy_got s @ sy_up s) @
      box_requests (sy_server_box s))" using inv(1) by (simp add: queue_inv_def)
  then have "req_data u (sy_sent s) = written_for u (nd_written (sy_node s)) @ req_data u (sy_up s) @
      req_data u (box_requests (sy_server_box s))"
    using whole_writes_aux [OF nes(1,3)] by (simp add: req_data_filter nes(2) del: filter_append)
  with inv(2) assms(5) show ?thesis by (simp add: data_inv_def)
qed

text \<open>
  C28: requests overtake nothing. In every interleaving, heartbeats aside, the requests the server
  end got, those under way and those waiting in the tunnel actor's mailbox are all the requests
  of all SOCKS actors, in the order they were sent, whatever the connection.
\<close>

theorem requests_in_order:
  assumes "sys_run checks v es s" and "sv_clients v = Map.empty"
  shows "filter (\<lambda>q. \<not> is_beat q) (sy_got s) @ filter (\<lambda>q. \<not> is_beat q) (sy_up s) @
    box_requests (sy_server_box s) = sy_sent s"
  using system_invariant [OF assms] by (simp add: queue_inv_def)

section \<open>Success before data\<close>

lemma meaning_data: "response_meaning t = Some (CRData d) \<Longrightarrow> t = PTData d"
  by (cases t rule: response_meaning.cases) auto

lemma meanings_split:
  assumes "meanings u rs = cs @ CRData d # cs'"
  shows "\<exists>before r after. rs = before @ r # after \<and> prs_response r = PTData d \<and> prs_uuid r = u \<and>
    meanings u before = cs"
  using assms
proof (induction rs arbitrary: cs)
  case (Cons r rs)
  show ?case
  proof (cases "meanings u [r]")
    case Nil
    then have "meanings u (r # rs) = meanings u rs" by (auto split: option.splits if_splits)
    with Cons.prems Cons.IH obtain before r' after where
      "rs = before @ r' # after" "prs_response r' = PTData d" "prs_uuid r' = u" "meanings u before = cs"
      by metis
    moreover have "meanings u (r # before) = meanings u before"
      using Nil by (auto split: option.splits if_splits)
    ultimately show ?thesis by (intro exI [of _ "r # before"]) auto
  next
    case (Cons c xs)
    then have c: "meanings u (r # ys) = c # meanings u ys" "response_meaning (prs_response r) = Some c"
      "prs_uuid r = u" for ys
      by (auto split: option.splits if_splits)
    show ?thesis
    proof (cases cs)
      case Nil
      with c Cons.prems have "c = CRData d" by simp
      with c(2) have "response_meaning (prs_response r) = Some (CRData d)" by simp
      then have "prs_response r = PTData d"
        by (rule meaning_data)
      with c(3) Nil show ?thesis by (intro exI [of _ "[]"]) auto
    next
      case (Cons c' cs0)
      with c Cons.prems have "meanings u rs = cs0 @ CRData d # cs'" "c' = c" by auto
      with Cons.IH obtain before r' after where
        "rs = before @ r' # after" "prs_response r' = PTData d" "prs_uuid r' = u" "meanings u before = cs0"
        by metis
      with c(1) Cons \<open>c' = c\<close> show ?thesis by (intro exI [of _ "r # before"]) auto
    qed
  qed
qed simp

lemma conn_replies_split:
  assumes "conn_replies cs = rs @ SRespData d # rs'"
  shows "\<exists>before after. cs = before @ CRData d # after \<and> conn_replies before = rs"
  using assms
proof (induction cs arbitrary: rs rule: conn_replies.induct)
  case (4 e cs)
  show ?case
  proof (cases rs)
    case Nil
    with 4 show ?thesis by (intro exI [of _ "[]"] exI [of _ cs]) auto
  next
    case (Cons x ys)
    with 4 obtain before after where "cs = before @ CRData d # after" "conn_replies before = ys" by auto
    with 4 Cons show ?thesis by (intro exI [of _ "CRData e # before"] exI [of _ after]) auto
  qed
next
  case (5 cs)
  then obtain before after where "cs = before @ CRData d # after" "conn_replies before = rs" by auto
  then show ?case by (intro exI [of _ "CRAbort # before"] exI [of _ after]) auto
next
  case (2 cs)
  then obtain ys where ys: "rs = SRespTarget succeeded_response # ys" "conn_replies cs = ys @ SRespData d # rs'"
    by (cases rs) auto
  with 2 obtain before after where "cs = before @ CRData d # after" "conn_replies before = ys" by auto
  with ys show ?case by (intro exI [of _ "CRSucceeded # before"] exI [of _ after]) auto
next
  case (3 cs)
  then obtain ys where ys: "rs = SRespTarget refused_response # ys" "conn_replies cs = ys @ SRespData d # rs'"
    by (cases rs) auto
  with 3 obtain before after where "cs = before @ CRData d # after" "conn_replies before = ys" by auto
  with ys show ?case by (intro exI [of _ "CRFailed # before"] exI [of _ after]) auto
qed simp

lemma conn_replies_more: "set (conn_replies cs) \<subseteq> set (conn_replies (c # cs))"
  by (cases c) auto

lemma succeeded_replies:
  "u \<in> succeeded rs \<Longrightarrow> SRespTarget succeeded_response \<in> set (conn_replies (meanings u rs))"
proof (induction rs)
  case (Cons r rs)
  show ?case
  proof (cases "prs_response r = PTResponse RTSucceeded \<and> prs_uuid r = u")
    case False
    with Cons have "SRespTarget succeeded_response \<in> set (conn_replies (meanings u rs))"
      by (auto split: if_splits)
    then show ?thesis using conn_replies_more by (fastforce split: option.splits)
  qed simp
qed simp

text \<open>
  C7: an application is told of its connection before it gets data. Let no port be used twice. In
  every interleaving, before any data an application is sent comes the success reply to its
  request.
\<close>

theorem success_reply_before_data:
  assumes "sys_run checks v es s" and "sv_clients v = Map.empty" and "distinct (ports es)"
    and "uuid_at s a = Some u" and "sy_app s a = before @ SRespData d # after"
  shows "SRespTarget succeeded_response \<in> set before"
proof -
  obtain nes where run: "node_run nes (sy_node s)"
    by (rule node_of_system [OF assms(1,2)])
  let ?sent = "nd_sent (sy_node s)" and ?k = "sy_taken s"
  have "conn_replies (meanings u (take ?k ?sent)) =
      told before @ SRespData d # told after @ conn_replies (sy_socks_box s a)"
    using sent_to_application [OF assms(1-4)] assms(5) by simp
  from conn_replies_split [OF this] obtain cs cs' where cs: "meanings u (take ?k ?sent) = cs @ CRData d # cs'"
    "conn_replies cs = told before" by blast
  from meanings_split [OF cs(1)] obtain xs r ys where r: "take ?k ?sent = xs @ r # ys"
    "prs_response r = PTData d" "prs_uuid r = u" "meanings u xs = cs" by blast
  have "data_after_success {} ((xs @ r # ys) @ drop ?k ?sent @ pending (sy_node s))"
    using node_inv_told(3) [OF run] by (simp flip: r(1) append_assoc)
  then have "u \<in> succeeded xs" using r(2,3) by (simp add: data_after_success_append)
  with cs(2) r(4) show ?thesis using succeeded_replies [of u xs] by (simp add: told_def)
qed

section \<open>A run\<close>

definition ref_target :: target_request where
  "ref_target = \<lparr>tq_version = 5, tq_command = CONNECT, tq_reserved = 0, tq_request_type = DomainType,
     tq_address = DOMAIN [97], tq_port = 80\<rparr>"

text \<open>
  Two applications connect; the first one asks for a target, gets its success and one piece of
  data, sends another piece and has a third one under way.
\<close>

definition ref_sys_events :: "nat sys_event list" where
  "ref_sys_events =
     [AppConnects 9 0, AppConnects 8 1, AppItem 0 0 (SReqTarget ref_target), ServerMailbox id,
      RequestArrives ref_env, NodeStep (NResolved 9 (ConnectedTo 3)), NodeStep (NMailbox ref_env),
      ResponseArrives id, SocksMailbox 0 1, NodeStep (NRead 9 (ReadData [5])), NodeStep (NMailbox ref_env),
      ResponseArrives id, SocksMailbox 0 2, AppItem 0 2 (SReqData [1, 2]), ServerMailbox id,
      RequestArrives ref_env, NodeStep (NRead 9 (ReadData [6]))]"


text \<open>What a concrete run is evaluated with.\<close>

lemmas system_eval = sys_new_def node_new_def server_call_def socks_call_def server_handle.simps
  server_handle_connected_def heartbeats_of_def post_sends_def handle_socks_request_def add_assign_def
  socks_client_new_def server_handle_request_def node_call_def handle_request_cases proxy_client_new_def
  resolver_done_def ref_env_def proxy_handlers handle_response_cases record_rtt_def reader_step_def
  handle_connector_response_def ref_server_def duration_since_def socks_client_handle.simps

definition ref_sys :: "nat system" where
  "ref_sys =
     \<lparr>sy_socks =
        [1 \<mapsto> socks_client_new 8,
         0 \<mapsto> \<lparr>sc_uuid = 9, sc_connect_request_record = Some 0, sc_connect_rtt = Some 1,
           sc_send_bytes = 2, sc_recv_bytes = 1, sc_target_address = Some (to_addressstring ref_target)\<rparr>],
      sy_socks_box = (\<lambda>_. [])(0 := []), sy_stopped = {},
      sy_server = ref_server\<lparr>sv_clients := [9 \<mapsto> 0, 8 \<mapsto> 1]\<rparr>,
      sy_server_box = [], sy_up = [],
      sy_node =
        \<lparr>nd_actor = \<lparr>pcl_connections = [9 \<mapsto> 3]\<rparr>,
           nd_mailbox = [PCResponse (proxy_response_new 9 (PTData [6]))],
           nd_resolving = [], nd_readers = [9],
           nd_sent = [proxy_response_new 9 (PTResponse RTSucceeded), proxy_response_new 9 (PTData [5])],
           nd_written = [(9, 3, [1, 2])], nd_stopped = False\<rparr>,
      sy_taken = 2,
      sy_sent = [proxy_request_new 9 (PTRequestAddr (to_addressstring ref_target)),
        proxy_request_new 9 (PTData [1, 2])],
      sy_got = [proxy_request_new 9 (PTRequestAddr (to_addressstring ref_target)),
        proxy_request_new 9 (PTData [1, 2])],
      sy_app = (\<lambda>_. [])(0 := [SRespTarget succeeded_response, SRespData [5]]), sy_closed = False\<rparr>"

lemma ref_sys_run: "sys_run False ref_server ref_sys_events ref_sys"
  by (rule sys_run_start) (simp add: ref_sys_events_def ref_sys_def system_eval)

lemma ref_sys_facts:
  "sv_clients ref_server = Map.empty" "distinct (ports ref_sys_events)" "uuid_at ref_sys 0 = Some 9"
  "sys_full ref_sys_events"
  by (simp_all add: ref_server_def ref_sys_events_def uuid_at_def ref_sys_def sys_full_def full_env_def
      ref_env_def)

theorem application_gets_its_reads_witness:
  "data_sent (sy_app ref_sys 0) @ conn_data (sy_socks_box ref_sys 0) @ resp_data 9 (under_way ref_sys) =
    read_data 9 (sys_reads ref_sys_events)"
  by (rule application_gets_its_reads [OF ref_sys_run ref_sys_facts(1-3)])

theorem target_gets_its_data_witness:
  "written_for 9 (nd_written (sy_node ref_sys)) @ req_data 9 (sy_up ref_sys) @
      req_data 9 (box_requests (sy_server_box ref_sys)) = app_data 0 ref_sys_events"
  by (rule target_gets_its_data [OF ref_sys_run ref_sys_facts(1,2,4,3)])

theorem requests_in_order_witness:
  "filter (\<lambda>q. \<not> is_beat q) (sy_got ref_sys) @ filter (\<lambda>q. \<not> is_beat q) (sy_up ref_sys) @
    box_requests (sy_server_box ref_sys) = sy_sent ref_sys"
  by (rule requests_in_order [OF ref_sys_run ref_sys_facts(1)])

theorem success_reply_before_data_witness:
  "SRespTarget succeeded_response \<in> set [SRespTarget succeeded_response]"
  by (rule success_reply_before_data [OF ref_sys_run ref_sys_facts(1-3), where d = "[5]" and after = "[]"])
    (simp add: ref_sys_def)

section \<open>A port used twice\<close>

text \<open>
  Nothing tells the server end that an application has gone, so its connection goes on being
  read; the identifier is the port, and the operating system gives ports out again.
\<close>

definition reuse_events :: "bytes \<Rightarrow> nat sys_event list" where
  "reuse_events d =
     [AppConnects 9 0, AppItem 0 0 (SReqTarget ref_target), ServerMailbox id, RequestArrives ref_env,
      NodeStep (NResolved 9 (ConnectedTo 3)), NodeStep (NMailbox ref_env), ResponseArrives id,
      AppCloses 0, AppConnects 9 1, NodeStep (NRead 9 (ReadData d)), NodeStep (NMailbox ref_env), ResponseArrives id,
      SocksMailbox 1 1]"

text \<open>
  C30: data can reach the wrong application. When a port is used a second time, an application
  that never asked for anything is sent, whatever it is, the data read from the connection made
  for the port's first user.
\<close>

theorem reused_port_leaks_data:
  "\<exists>(es :: nat sys_event list) s. sys_run False ref_server es s \<and> (\<forall>now i. AppItem 1 now i \<notin> set es) \<and>
    sys_reads es = [(9, Some d)] \<and> sy_app s 0 = [] \<and> sy_app s 1 = [SRespData d]"
proof -
  have "\<exists>s. sys_exec False (sys_new ref_server) (reuse_events d) = Some s \<and> sy_app s 0 = [] \<and>
      sy_app s 1 = [SRespData d]"
    by (simp add: reuse_events_def system_eval)
  moreover have "\<forall>now i. AppItem 1 now i \<notin> set (reuse_events d)" "sys_reads (reuse_events d) = [(9, Some d)]"
    by (simp_all add: reuse_events_def)
  ultimately show ?thesis using sys_run_start by blast
qed

end
