(* ===== verification/Byte_Channel.thy ===== *)
theory Byte_Channel
  imports Tunnel_Properties Socks_Session "HOL-Library.Sublist"
begin

text \<open>
  One direction of the tunnel as it runs: the framed writer encodes messages into its buffer
  whenever they come, the transport moves any number of bytes from there to the reader's buffer,
  and the framed reader decodes what it can. This refines a queue of messages: at every moment the
  messages delivered and those still in the channel are the messages written, in order. The
  direction is a step function over any codec; the refinement is shown in \<open>framed_codec\<close> and
  holds for both codecs of the tunnel by their interpretations.
\<close>

section \<open>The channel\<close>

record ('s, 'i) channel =
  ch_out :: bytes_mut
  ch_in :: bytes
  ch_state :: 's
  ch_items :: "'i list"
  ch_fault :: "fault option"

datatype ('r, 'i) channel_event = Write 'r 'i | Arrive nat

definition channel_new :: "'s \<Rightarrow> nat \<Rightarrow> ('s, 'i) channel" where
  "channel_new s n = \<lparr>ch_out = \<lparr>contents = [], capacity = n\<rparr>, ch_in = [], ch_state = s, ch_items = [],
     ch_fault = None\<rparr>"

text \<open>
  A write that fails leaves the writer with its error; an arrival reads as long as the reader has
  not failed.
\<close>

fun channel_step ::
    "('s, 'i) decoder \<Rightarrow> ('r \<Rightarrow> 'i \<Rightarrow> bytes_mut \<Rightarrow> bytes_mut res) \<Rightarrow> ('s, 'i) channel \<Rightarrow>
     ('r, 'i) channel_event \<Rightarrow> ('s, 'i) channel res" where
  "channel_step dec enc c (Write r i) =
     and_then (enc r i (ch_out c)) (\<lambda>dst. Inr (c\<lparr>ch_out := dst\<rparr>))"
| "channel_step dec enc c (Arrive n) =
     (case ch_fault c of
        Some e \<Rightarrow> Inr c
      | None \<Rightarrow>
          (case drain dec (ch_state c) (ch_in c @ take n (contents (ch_out c))) of (xs, e, s, b) \<Rightarrow>
             Inr (c\<lparr>ch_out := (ch_out c)\<lparr>contents := drop n (contents (ch_out c))\<rparr>,
                   ch_in := b, ch_state := s, ch_items := ch_items c @ xs, ch_fault := e\<rparr>)))"

fun channel_run ::
    "('s, 'i) decoder \<Rightarrow> ('r \<Rightarrow> 'i \<Rightarrow> bytes_mut \<Rightarrow> bytes_mut res) \<Rightarrow> ('s, 'i) channel \<Rightarrow>
     ('r, 'i) channel_event list \<Rightarrow> ('s, 'i) channel res" where
  "channel_run dec enc c [] = Inr c"
| "channel_run dec enc c (e # es) = and_then (channel_step dec enc c e) (\<lambda>c'. channel_run dec enc c' es)"

fun writes :: "('r, 'i) channel_event list \<Rightarrow> ('r \<times> 'i) list" where
  "writes [] = []"
| "writes (Write r i # es) = (r, i) # writes es"
| "writes (Arrive n # es) = writes es"

section \<open>It is a queue\<close>

text \<open>
  \<open>carries\<close>: the channel holds the items \<open>ys\<close>: reading all its bytes would deliver them.
\<close>

definition carries :: "('s, 'i) decoder \<Rightarrow> 's \<Rightarrow> ('s, 'i) channel \<Rightarrow> 'i list \<Rightarrow> bool" where
  "carries dec s c ys \<longleftrightarrow> ch_fault c = None \<and>
     drain dec (ch_state c) (ch_in c) = ([], None, ch_state c, ch_in c) \<and>
     drain dec (ch_state c) (ch_in c @ contents (ch_out c)) = (ys, None, s, [])"

context framed_codec
begin

lemma carries_new: "ok L \<Longrightarrow> carries (dec L) s (channel_new s n) []"
  using wait_step [OF idle, of L s] by (simp add: carries_def channel_new_def)

lemma carries_write:
  assumes "ok L" and "good L s r i" and "carries (dec L) s c ys"
  shows "\<exists>c'. channel_step (dec L) (enc L s) c (Write r i) = Inr c' \<and> ch_items c' = ch_items c \<and>
    carries (dec L) s c' (ys @ [i])"
proof -
  from encodes [OF assms(1,2), of "ch_out c"] obtain f dst where
    e: "enc L s r i (ch_out c) = Inr dst" "contents dst = contents (ch_out c) @ f"
    and d: "dec L s f = (Inr (Some i), s, [])" by blast
  have "drain (dec L) s f = ([i], None, s, [])"
    using drain_frame [OF assms(1) d, of "[]"] by (simp add: wait_step [OF idle [OF assms(1)]])
  then have "drain (dec L) (ch_state c) ((ch_in c @ contents (ch_out c)) @ f) = (ys @ [i], None, s, [])"
    using assms(3) drain_append [OF assms(1), of "ch_state c" "ch_in c @ contents (ch_out c)" ys s "[]" f]
    by (simp add: carries_def)
  with assms(3) e show ?thesis by (simp add: carries_def)
qed

lemma carries_arrive:
  assumes "ok L" and "carries (dec L) s c ys"
  shows "\<exists>c' xs zs. channel_step (dec L) (enc L s) c (Arrive n) = Inr c' \<and> ys = xs @ zs \<and>
    ch_items c' = ch_items c @ xs \<and> carries (dec L) s c' zs"
proof -
  let ?out = "contents (ch_out c)" and ?b = "ch_in c @ take n (contents (ch_out c))"
  obtain xs e t r where d: "drain (dec L) (ch_state c) ?b = (xs, e, t, r)"
    by (cases "drain (dec L) (ch_state c) ?b") auto
  have all: "drain (dec L) (ch_state c) (?b @ drop n ?out) = (ys, None, s, [])"
    using assms(2) by (simp add: carries_def)
  have "e = None"
  proof (cases e)
    case (Some x)
    with d drain_append_error [OF assms(1), of "ch_state c" ?b xs x t r "drop n ?out"] all show ?thesis by simp
  qed simp
  with d have d': "drain (dec L) (ch_state c) ?b = (xs, None, t, r)" by simp
  obtain zs e' u q where rest: "drain (dec L) t (r @ drop n ?out) = (zs, e', u, q)"
    by (cases "drain (dec L) t (r @ drop n ?out)") auto
  from drain_append [OF assms(1) d', of "drop n ?out"] all rest
  have zs: "ys = xs @ zs" "e' = None" "u = s" "q = []" by simp_all
  from drain_stops [OF assms(1) d'] have "drain (dec L) t r = ([], None, t, r)"
    by (simp add: drain_wait)
  with assms(2) d' rest zs show ?thesis by (auto simp: carries_def)
qed

text \<open>The refinement: a run of the channel is a run of the queue, and an empty channel has delivered all.\<close>

lemma channel_refines_queue:
  assumes "ok L"
  shows "carries (dec L) s c ys \<Longrightarrow> \<forall>(r, i) \<in> set (writes es). good L s r i \<Longrightarrow>
    \<exists>c' zs. channel_run (dec L) (enc L s) c es = Inr c' \<and> carries (dec L) s c' zs \<and>
      ch_items c' @ zs = ch_items c @ ys @ map snd (writes es)"
proof (induction es arbitrary: c ys)
  case (Cons e es)
  show ?case
  proof (cases e)
    case (Write r i)
    with Cons.prems carries_write [OF assms, of s r i c ys] obtain c1 where
      "channel_step (dec L) (enc L s) c e = Inr c1" "ch_items c1 = ch_items c"
      "carries (dec L) s c1 (ys @ [i])" by auto
    with Cons.IH [of c1 "ys @ [i]"] Cons.prems(2) Write show ?thesis by auto
  next
    case (Arrive n)
    with Cons.prems carries_arrive [OF assms, of s c ys n] obtain c1 xs zs where
      "channel_step (dec L) (enc L s) c e = Inr c1" "ys = xs @ zs" "ch_items c1 = ch_items c @ xs"
      "carries (dec L) s c1 zs" by auto
    with Cons.IH [of c1 zs] Cons.prems(2) Arrive show ?thesis by auto
  qed
qed auto

lemma carries_empty: "carries (dec L) s c zs \<Longrightarrow> contents (ch_out c) = [] \<Longrightarrow> zs = [] \<and> ch_in c = []"
  by (auto simp: carries_def)

lemma channel_is_queue:
  assumes "ok L" and "\<forall>(r, i) \<in> set (writes es). good L s r i"
  shows "\<exists>c. channel_run (dec L) (enc L s) (channel_new s n) es = Inr c \<and> ch_fault c = None \<and>
    prefix (ch_items c) (map snd (writes es)) \<and>
    (contents (ch_out c) = [] \<longrightarrow> ch_items c = map snd (writes es) \<and> ch_in c = [])"
proof -
  from channel_refines_queue [OF assms(1) carries_new [OF assms(1)] assms(2), of n] obtain c zs where
    c: "channel_run (dec L) (enc L s) (channel_new s n) es = Inr c" "carries (dec L) s c zs"
      "ch_items c @ zs = map snd (writes es)" by (auto simp: channel_new_def)
  have "prefix (ch_items c) (map snd (writes es))" by (rule prefixI [OF c(3) [symmetric]])
  moreover have "ch_items c = map snd (writes es) \<and> ch_in c = []" if "contents (ch_out c) = []"
    using carries_empty [OF c(2) that] c(3) by simp
  ultimately show ?thesis using c(1,2) by (auto simp: carries_def)
qed

end

section \<open>Properties\<close>

text \<open>
  C5: the client-to-server direction of the tunnel is a queue. However writing messages that fit
  interleaves with the arrival of bytes, in pieces of any size, no write and no read fails, what
  the reader has delivered is at every moment a prefix of the messages written, and once all bytes
  have arrived it is all of them, with nothing left in the reader's buffer.
\<close>

theorem request_channel_is_queue:
  assumes "crates_ok L" and "\<forall>(rng, q) \<in> set (writes es). request_good L k rng q"
  shows "\<exists>c. channel_run (proxy_request_decode L) (proxy_request_encode L k) (channel_new k n) es = Inr c \<and>
    ch_fault c = None \<and> prefix (ch_items c) (map snd (writes es)) \<and>
    (contents (ch_out c) = [] \<longrightarrow> ch_items c = map snd (writes es) \<and> ch_in c = [])"
  by (rule rqc.channel_is_queue [OF crates_okD(1) [OF assms(1)] assms(2)])

lemma ref_codec_ok: "codec_ok ref_crates ref_codec"
  by (rule codec_new_ok [OF crates_okD(3) [OF ref_crates_ok] ref_codec_new])

lemma ref_good:
  "transfer_fits t \<Longrightarrow> request_good ref_crates ref_codec ref_rng (proxy_request_new u t)"
  "transfer_fits t \<Longrightarrow> response_good ref_crates ref_codec ref_rng (proxy_response_new u t)"
  by (auto simp: request_good_def response_good_def ref_crates_ok ref_codec_ok ref_rng_ok)

definition ref_request :: proxy_request where
  "ref_request = proxy_request_new 9 (PTData [1, 2])"

definition ref_response :: proxy_response where
  "ref_response = proxy_response_new 9 (PTResponse RTSucceeded)"

theorem request_channel_is_queue_witness:
  "\<exists>c. channel_run (proxy_request_decode ref_crates) (proxy_request_encode ref_crates ref_codec)
      (channel_new ref_codec 0) [Write ref_rng ref_request, Arrive 3, Write ref_rng ref_request, Arrive 60] = Inr c \<and>
    ch_fault c = None \<and>
    prefix (ch_items c) (map snd (writes [Write ref_rng ref_request, Arrive 3, Write ref_rng ref_request, Arrive 60])) \<and>
    (contents (ch_out c) = [] \<longrightarrow>
      ch_items c = map snd (writes [Write ref_rng ref_request, Arrive 3, Write ref_rng ref_request, Arrive 60]) \<and>
      ch_in c = [])"
  by (rule request_channel_is_queue [OF ref_crates_ok])
    (simp add: ref_request_def ref_good transfer_fits_def)

text \<open>So is the direction back, with its own codec.\<close>

theorem response_channel_is_queue:
  assumes "crates_ok L" and "\<forall>(rng, q) \<in> set (writes es). response_good L k rng q"
  shows "\<exists>c. channel_run (proxy_response_decode L) (proxy_response_encode L k) (channel_new k n) es = Inr c \<and>
    ch_fault c = None \<and> prefix (ch_items c) (map snd (writes es)) \<and>
    (contents (ch_out c) = [] \<longrightarrow> ch_items c = map snd (writes es) \<and> ch_in c = [])"
  by (rule rsc.channel_is_queue [OF crates_okD(1) [OF assms(1)] assms(2)])

theorem response_channel_is_queue_witness:
  "\<exists>c. channel_run (proxy_response_decode ref_crates) (proxy_response_encode ref_crates ref_codec)
      (channel_new ref_codec 0) [Write ref_rng ref_response, Arrive 3, Write ref_rng ref_response, Arrive 60] = Inr c \<and>
    ch_fault c = None \<and>
    prefix (ch_items c) (map snd (writes [Write ref_rng ref_response, Arrive 3, Write ref_rng ref_response, Arrive 60])) \<and>
    (contents (ch_out c) = [] \<longrightarrow>
      ch_items c = map snd (writes [Write ref_rng ref_response, Arrive 3, Write ref_rng ref_response, Arrive 60]) \<and>
      ch_in c = [])"
  by (rule response_channel_is_queue [OF ref_crates_ok])
    (simp add: ref_response_def ref_good transfer_fits_def)

text \<open>
  C17: no bytes can keep a reader busy for ever. The reading loop of each of the four decoders, the
  two of the tunnel, the one of SOCKS and the one of target connections, ends on every buffer in
  every state of the codec, with an error or where more bytes are needed.
\<close>

theorem readers_terminate:
  assumes "bytes_ok L" and "byteorder_ok L"
  shows "reader_loop (proxy_request_decode L) k b = Some (drain (proxy_request_decode L) k b) \<and>
    reader_loop (proxy_response_decode L) k b = Some (drain (proxy_response_decode L) k b) \<and>
    reader_loop (socks5_decode L) st b = Some (drain (socks5_decode L) st b) \<and>
    reader_loop (bytes_codec_decode L) () b = Some (drain (bytes_codec_decode L) () b)"
  using rqd.reader_loop_ends [OF assms(1)] rsd.reader_loop_ends [OF assms(1)]
    sd.reader_loop_ends [of L] bc.reader_loop_ends [OF assms(1)] assms by simp

theorem readers_terminate_witness:
  "reader_loop (proxy_request_decode ref_crates) ref_codec [1, 2] =
      Some (drain (proxy_request_decode ref_crates) ref_codec [1, 2]) \<and>
    reader_loop (proxy_response_decode ref_crates) ref_codec [1, 2] =
      Some (drain (proxy_response_decode ref_crates) ref_codec [1, 2]) \<and>
    reader_loop (socks5_decode ref_crates) NEGOTIATION [1, 2] =
      Some (drain (socks5_decode ref_crates) NEGOTIATION [1, 2]) \<and>
    reader_loop (bytes_codec_decode ref_crates) () [1, 2] =
      Some (drain (bytes_codec_decode ref_crates) () [1, 2])"
  by (rule readers_terminate [OF ref_bytes_ok ref_byteorder_ok])

end
