(* ===== verification/Message_Types.thy ===== *)
theory Message_Types
  imports End_To_End Byte_Channel Tunnel_Delivery
begin

text \<open>
  The messages are well typed: whatever bytes applications send, what their actors ask of the
  tunnel fits its frames, and this is an invariant of the whole system. So the hypotheses under
  which the tunnel delivers are met by the program itself.
\<close>

section \<open>The length of a rendered address\<close>

lemma dec_digits_length: "length (dec_digits n) \<le> Suc n"
  by (induction n rule: dec_digits.induct) (subst dec_digits.simps, auto)

lemma hex_digits_length: "length (hex_digits n) \<le> Suc n"
  by (induction n rule: hex_digits.induct) (subst hex_digits.simps, auto)

lemma join_with_length:
  "\<forall>x \<in> set xs. length x \<le> k \<Longrightarrow> length (join_with sep xs) \<le> length xs * (k + length sep)"
  by (induction sep xs rule: join_with.induct) auto

lemma display_octets_length: "length (display_octets bs) \<le> length bs * 257"
proof -
  have "length (dec_digits (unat b)) \<le> 256" for b :: u8
    by (rule order_trans [OF dec_digits_length]) (simp add: Suc_le_eq)
  then show ?thesis
    using join_with_length [of "map (\<lambda>b. dec_digits (unat b)) bs" 256 "rstr ''.''"]
    by (simp add: display_octets_def rstr_def)
qed

lemma segments_of_bound: "s \<in> set (segments_of bs) \<Longrightarrow> s < 65536"
proof (induction bs rule: segments_of.induct)
  case (1 h l r)
  have "unat h * 256 + unat l < 65536"
    using unat_u8_less [of h] unat_u8_less [of l] by linarith
  with 1 show ?case by auto
qed simp_all

lemma segments_of_length: "length (segments_of bs) \<le> length bs"
  by (induction bs rule: segments_of.induct) auto

lemma fmt_segments_length:
  assumes "\<forall>s \<in> set ss. s < 65536" and "length ss \<le> 16"
  shows "length (fmt_segments ss) \<le> 1048592"
proof -
  have "\<forall>x \<in> set (map hex_digits ss). length x \<le> 65536"
    using assms(1) hex_digits_length by (fastforce intro: order_trans)
  from join_with_length [OF this, of "rstr '':''"]
  have "length (fmt_segments ss) \<le> length ss * 65537" by (simp add: fmt_segments_def)
  also have "\<dots> \<le> 16 * 65537" using assms(2) by (intro mult_le_mono1)
  finally show ?thesis by simp
qed

lemma display_ipv6_length: "length (display_ipv6 a) \<le> 2097188"
proof -
  let ?ss = "ipv6_segments a" and ?bs = "ipv6_octets a"
  have bs: "length ?bs = 16" by (simp add: ipv6_octets_def)
  have ss: "\<forall>s \<in> set ?ss. s < 65536" "length ?ss \<le> 16"
    using segments_of_bound segments_of_length [of ?bs] bs by (auto simp: ipv6_segments_def)
  have part: "length (fmt_segments (take i ?ss)) \<le> 1048592" "length (fmt_segments (drop j ?ss)) \<le> 1048592" for i j
    by (rule fmt_segments_length; use ss in \<open>auto dest: in_set_takeD in_set_dropD\<close>)+
  have tail: "length (display_octets (drop 12 ?bs)) \<le> 1028"
    using display_octets_length [of "drop 12 ?bs"] bs by simp
  from part(1) [of "length ?ss"] have all: "length (fmt_segments ?ss) \<le> 1048592" by simp
  obtain i n where z: "zero_slice ?ss 0 (0, 0) (0, 0) = (i, n)" by (cases "zero_slice ?ss 0 (0, 0) (0, 0)")
  from part(1) [of i] part(2) [of "i + n"] tail all show ?thesis
    by (simp add: display_ipv6_def Let_def z rstr_def)
qed

lemma display_i16_length: "length (display_i16 w) \<le> 32770"
proof -
  have "- 32768 \<le> sint w" "sint w < 32768"
    using sint_range_size [of w] by (auto simp: word_size)
  then have "nat (sint w) \<le> 32768" "nat (- sint w) \<le> 32768" by auto
  then show ?thesis
    using dec_digits_length [of "nat (sint w)"] dec_digits_length [of "nat (- sint w)"]
    by (simp add: display_i16_def)
qed

section \<open>Items and requests\<close>

fun item_fits :: "socks_request \<Rightarrow> bool" where
  "item_fits (SReqNegotiation _) \<longleftrightarrow> True"
| "item_fits (SReqTarget t) \<longleftrightarrow> addr_fits (tq_address t)"
| "item_fits (SReqData d) \<longleftrightarrow> length d < 2 ^ 32"

lemma address_transfer_fits:
  assumes "addr_fits (tq_address t)"
  shows "transfer_fits (PTRequestAddr (to_addressstring t))"
proof -
  have "addr_wf (tq_address t)" using assms by (cases "tq_address t") auto
  moreover have "length (to_addressstring t) < 2 ^ 32"
  proof -
    have "length (display_ipv4 a) \<le> 2097188" for a
      using display_octets_length [of "ipv4_octets a"] by (simp add: display_ipv4_def ipv4_octets_def)
    with assms display_ipv6_length have "length (case tq_address t of
        DOMAIN s \<Rightarrow> s | IPV6 i \<Rightarrow> display_ipv6 i | IPV4 i \<Rightarrow> display_ipv4 i) \<le> 2097188"
      by (cases "tq_address t") (auto intro: order_trans)
    with display_i16_length [of "tq_port t"] show ?thesis
      by (simp add: to_addressstring_def Let_def)
  qed
  ultimately show ?thesis by (simp add: transfer_fits_def to_addressstring_utf8)
qed

lemma data_fits: "transfer_fits (PTData d) \<longleftrightarrow> length d < 2 ^ 32"
  by (simp add: transfer_fits_def)

lemma relay_fits:
  "item_fits i \<Longrightarrow> q \<in> set (socks_requests (relay u (FromApp i))) \<Longrightarrow> request_fits q"
  by (cases i) (auto simp: address_transfer_fits data_fits)

lemma socks5_item_fits:
  assumes "bytes_ok L \<and> byteorder_ok L" and "socks5_decode L st b = (Inr (Some i), st', b')" and "length b < 2 ^ 32"
  shows "item_fits i"
proof (cases st)
  case NEGOTIATION
  with assms show ?thesis
    by (auto simp: socks5_decode_def dest!: decode_methodselection_inv [of L] split: prod.splits)
next
  case WORKING
  with assms have "decode_targetrequest L b = (Inr (Some i), b')"
    by (auto simp: socks5_decode_def split: prod.splits)
  with assms(1) target_request_sound_aux [of L b i b'] show ?thesis by (auto simp: parsed_target_def)
next
  case READY
  with assms show ?thesis by (auto simp: socks5_decode_def decode_data_def bytes_okD split: if_splits)
qed

lemma drain_fits:
  assumes "bytes_ok L \<and> byteorder_ok L"
  shows "drain (socks5_decode L) st b = (xs, e, t, r) \<Longrightarrow> length b < 2 ^ 32 \<Longrightarrow> \<forall>i \<in> set xs. item_fits i"
proof (induction "length b" arbitrary: st b xs rule: less_induct)
  case less
  show ?case
  proof (cases rule: sd.drain_cases [OF assms, of st b, case_names error wait item])
    case (item i s' b' xs' e' t' r')
    with less.prems(1) have d: "drain (socks5_decode L) s' b' = (xs', e, t, r)" and x: "xs = i # xs'" by auto
    from less.hyps [OF item(2) d] item(2) less.prems(2) socks5_item_fits [OF assms item(1)] x show ?thesis by simp
  qed (use less.prems in auto)
qed

section \<open>The whole system\<close>

lemma box_requests_set: "q \<in> set (box_requests ms) \<longleftrightarrow> SVRequest q \<in> set ms"
  by (induction ms rule: box_requests.induct) auto

definition items_fit :: "'w sys_event list \<Rightarrow> bool" where
  "items_fit es \<longleftrightarrow> (\<forall>a now i. AppItem a now i \<in> set es \<longrightarrow> item_fits i)"

definition reads_fit :: "'w sys_event list \<Rightarrow> bool" where
  "reads_fit es \<longleftrightarrow> (\<forall>u d. NodeStep (NRead u (ReadData d)) \<in> set es \<longrightarrow> length d < 2 ^ 32)"

definition requests_typed :: "'w system \<Rightarrow> bool" where
  "requests_typed s \<longleftrightarrow>
     (\<forall>q \<in> set (sy_got s @ sy_up s @ sy_sent s @ box_requests (sy_server_box s)). request_fits q)"

definition node_typed :: "'w node \<Rightarrow> bool" where
  "node_typed n \<longleftrightarrow> (\<forall>r \<in> set (nd_sent n). response_fits r) \<and>
     (\<forall>r. PCResponse r \<in> set (nd_mailbox n) \<longrightarrow> response_fits r)"

lemma requests_typed_socks:
  assumes "requests_typed s" and "socks_call checks a now m (s\<lparr>sy_socks_box := b\<rparr>) = Some s'"
    and "\<forall>i. m = FromApp i \<longrightarrow> item_fits i"
  shows "requests_typed s'"
proof (rule socks_call_parts [OF assms(2)])
  fix c c' X
  have "\<forall>q \<in> set (socks_requests (relay (sc_uuid c) m)). request_fits q"
    using assms(3) relay_fits by (cases m) (auto simp: relay_requests)
  moreover assume "s' = s\<lparr>sy_socks_box := b,
      sy_socks := (sy_socks (s\<lparr>sy_socks_box := b\<rparr>))(a \<mapsto> c'), sy_stopped := X,
      sy_server_box := sy_server_box (s\<lparr>sy_socks_box := b\<rparr>) @ map SVRequest (socks_requests (relay (sc_uuid c) m)),
      sy_sent := sy_sent (s\<lparr>sy_socks_box := b\<rparr>) @ socks_requests (relay (sc_uuid c) m),
      sy_app := (sy_app (s\<lparr>sy_socks_box := b\<rparr>))(a := sy_app (s\<lparr>sy_socks_box := b\<rparr>) a @
        app_replies (relay (sc_uuid c) m))\<rparr>"
  ultimately show ?thesis using assms(1) by (auto simp: requests_typed_def)
qed

lemma server_requests_fit:
  assumes "server_handle checks clock v m = Inr (v', os)" and "\<forall>q. m = SVRequest q \<longrightarrow> request_fits q"
  shows "\<forall>q \<in> set (requests_of os). request_fits q"
proof (cases m)
  case SVHeartbeat
  with assms show ?thesis
    by (auto simp: server_handle.simps server_handle_heartbeat_def Let_def bind_eq_Some_conv)
next
  case (SVRequest q)
  with assms show ?thesis by (auto simp: server_handle.simps server_handle_request_def)
next
  case (SVResponse r)
  with server_call_response_quiet [of checks clock v r v' os] assms show ?thesis by simp
next
  case SVTick
  with server_call_tick [of checks clock v v' os] assms show ?thesis by simp
next
  case (SVConnected u a)
  with assms show ?thesis by (auto simp: server_handle.simps server_handle_connected_def)
next
  case SVFinished
  with assms show ?thesis by (auto simp: server_handle.simps server_finished_def)
qed

lemma requests_typed_server:
  assumes "requests_typed s" and "server_call checks clock m (s\<lparr>sy_taken := k, sy_server_box := ms\<rparr>) = Some s'"
    and "set ms \<subseteq> set (sy_server_box s)" and "\<forall>q. m = SVRequest q \<longrightarrow> request_fits q"
  shows "requests_typed s'"
proof (rule server_call_parts [OF assms(2)])
  fix v os X
  let ?t = "s\<lparr>sy_taken := k, sy_server_box := ms\<rparr>"
  assume "server_handle checks clock (sy_server ?t) m = Inr (v, os)"
  from server_requests_fit [OF this assms(4)] have "\<forall>q \<in> set (requests_of os). request_fits q" .
  moreover have "set (box_requests ms) \<subseteq> set (box_requests (sy_server_box s))"
    using assms(3) by (auto simp: box_requests_set)
  moreover assume "s' = s\<lparr>sy_taken := k, sy_server_box := ms, sy_server := v,
      sy_server_box := sy_server_box ?t @ heartbeats_of os, sy_up := sy_up ?t @ requests_of os,
      sy_socks_box := post_sends (sends_of os) (sy_socks_box ?t), sy_closed := X\<rparr>"
  ultimately show ?thesis using assms(1) by (auto simp: requests_typed_def)
qed

lemma node_typed_step:
  assumes "node_typed n" and "node_next n e = Some n'" and "\<forall>u d. e = NRead u (ReadData d) \<longrightarrow> length d < 2 ^ 32"
  shows "node_typed n'"
proof (cases e)
  case (NRequest env q)
  with assms(2) node_call_Some [of env "PCRequest q" n n'] assms(1) replies_fit [of "[PCRequest q]"]
  show ?thesis by (auto simp: node_typed_def)
next
  case (NMailbox env)
  with assms(2) obtain m ms where m: "nd_mailbox n = m # ms" "node_call env m (n\<lparr>nd_mailbox := ms\<rparr>) = Some n'"
    by (auto split: list.splits)
  with node_call_Some [OF m(2)] assms(1) replies_fit [of "[m]"] show ?thesis by (auto simp: node_typed_def)
next
  case (NResolved u result)
  with assms show ?thesis
    by (cases result) (auto simp: node_typed_def resolver_done_def split: if_splits)
next
  case (NRead u ev)
  with assms show ?thesis
    by (cases ev) (auto simp: node_typed_def reader_step_def data_fits split: if_splits)
next
  case (NFinished env)
  with assms(2) node_call_Some [of env PCFinished n n'] assms(1) show ?thesis by (auto simp: node_typed_def)
qed

definition typed :: "'w system \<Rightarrow> bool" where
  "typed s \<longleftrightarrow> requests_typed s \<and> node_typed (sy_node s)"

lemma typed_other: "requests_typed s \<Longrightarrow> sy_got s' = sy_got s \<Longrightarrow> sy_up s' = sy_up s \<Longrightarrow> sy_sent s' = sy_sent s \<Longrightarrow>
    sy_server_box s' = sy_server_box s \<Longrightarrow> requests_typed s'"
  by (simp add: requests_typed_def)

lemma socks_call_node: "socks_call checks a now m s = Some s' \<Longrightarrow> sy_node s' = sy_node s"
  by (erule socks_call_parts) simp

lemma typed_step:
  assumes "typed s" and "sys_next checks s e = Some s'"
    and "\<forall>a now i. e = AppItem a now i \<longrightarrow> item_fits i"
    and "\<forall>u d. e = NodeStep (NRead u (ReadData d)) \<longrightarrow> length d < 2 ^ 32"
  shows "typed s'"
proof -
  have req: "requests_typed s" and node: "node_typed (sy_node s)" using assms(1) by (simp_all add: typed_def)
  have quiet: "typed z" if "server_call checks clock m s = Some z" "\<forall>q. m \<noteq> SVRequest q" for clock m z
    using requests_typed_server [OF req, where k = "sy_taken s" and ms = "sy_server_box s" and m = m and s' = z] that node
      server_call_keeps [OF that(1)] by (simp add: typed_def)
  show ?thesis
  proof (cases e)
    case (AppConnects u a)
    with assms(2) obtain z where "server_call checks (\<lambda>_. 0) (SVConnected u a) s = Some z"
      and s': "s' = z\<lparr>sy_socks := (sy_socks z)(a \<mapsto> socks_client_new u)\<rparr>" by (auto split: if_splits)
    with quiet have "typed z" by blast
    then show ?thesis by (simp add: typed_def requests_typed_def s')
  next
    case (AppItem a now i)
    with assms(2,3) requests_typed_socks [OF req, where b = "sy_socks_box s" and m = "FromApp i"] node
    show ?thesis by (auto simp: typed_def dest: socks_call_node)
  next
    case (SocksMailbox a now)
    with assms(2) obtain r b where
      c: "socks_call checks a now (FromServer r) (s\<lparr>sy_socks_box := b\<rparr>) = Some s'" by (auto split: list.splits)
    from requests_typed_socks [OF req c] socks_call_node [OF c] node show ?thesis by (simp add: typed_def)
  next
    case (TimerTick clock)
    with assms(2) quiet show ?thesis by auto
  next
    case (ServerMailbox clock)
    with assms(2) obtain m ms where m: "sy_server_box s = m # ms"
      and c: "server_call checks clock m (s\<lparr>sy_server_box := ms\<rparr>) = Some s'" by (auto split: list.splits)
    have "\<forall>q. m = SVRequest q \<longrightarrow> request_fits q" using req m by (auto simp: requests_typed_def)
    with requests_typed_server [OF req, where k = "sy_taken s" and ms = ms and m = m and s' = s'] c m
      server_call_keeps [OF c] node show ?thesis by (auto simp: typed_def)
  next
    case (ResponseArrives clock)
    with assms(2) obtain r where
      c: "server_call checks clock (SVResponse r) (s\<lparr>sy_taken := Suc (sy_taken s)\<rparr>) = Some s'"
      by (auto split: if_splits)
    with requests_typed_server [OF req, where k = "Suc (sy_taken s)" and ms = "sy_server_box s" and m = "SVResponse r" and s' = s']
      server_call_keeps [OF c] node show ?thesis by (simp add: typed_def)
  next
    case (RequestArrives env)
    with assms(2) obtain q qs n where up: "sy_up s = q # qs" and n: "node_next (sy_node s) (NRequest env q) = Some n"
      and s': "s' = s\<lparr>sy_node := n, sy_up := qs, sy_got := sy_got s @ [q]\<rparr>"
      by (auto simp del: node_next.simps split: list.splits)
    from node_typed_step [OF node n] have "node_typed n" by simp
    with req up show ?thesis by (auto simp: typed_def requests_typed_def s')
  next
    case (NodeStep f)
    with assms(2) obtain n where n: "node_next (sy_node s) f = Some n" and s': "s' = s\<lparr>sy_node := n\<rparr>"
      by (auto simp del: node_next.simps split: node_event.splits)
    from node_typed_step [OF node n] assms(4) NodeStep have "node_typed n" by simp
    with req show ?thesis by (simp add: typed_def requests_typed_def s')
  next
    case TunnelCloses
    with assms(2) quiet show ?thesis by auto
  next
    case (AppCloses a)
    with assms(1,2) show ?thesis by (auto simp: typed_def requests_typed_def split: option.splits)
  qed
qed

lemma typed_run:
  "sys_run checks v es s \<Longrightarrow> items_fit es \<Longrightarrow> reads_fit es \<Longrightarrow> typed s"
proof (induction rule: sys_run.induct)
  case start
  show ?case by (simp add: typed_def requests_typed_def node_typed_def sys_new_def node_new_def)
next
  case (step es s e s')
  then show ?case by (intro typed_step [OF _ step.hyps(2)]) (auto simp: items_fit_def reads_fit_def)
qed

section \<open>Properties\<close>

text \<open>
  C16: what a SOCKS connection asks of the tunnel is well typed. Of every read of less than 4 GiB,
  in every state of the SOCKS codec and of the actor, each item decoded from whatever bytes makes
  the actor send only requests that fit the tunnel: the address requested is UTF-8 text, and the
  length of the payload fits the frame's 32-bit field.
\<close>

theorem decoded_requests_fit:
  assumes "bytes_ok L" and "byteorder_ok L" and "length b < 2 ^ 32"
    and "drain (socks5_decode L) st b = (items, e, t, r)" and "i \<in> set items"
    and "socks_client_handle checks now c (FromApp i) = Inr (c', os)"
  shows "list_all request_fits (socks_requests os)"
proof -
  have "item_fits i" using drain_fits [of L st b items e t r] assms by blast
  with socks_call_relay [OF assms(6)] relay_fits show ?thesis unfolding list_all_iff by blast
qed

theorem decoded_requests_fit_witness:
  "list_all request_fits (socks_requests [ToServer (proxy_request_new 9 (PTData [1, 2]))])"
proof (rule decoded_requests_fit [OF ref_bytes_ok ref_byteorder_ok])
  show "drain (socks5_decode ref_crates) READY [1, 2] = ([SReqData [1, 2]], None, READY, [])"
    by (rule drain_ready) (simp_all add: ref_bytes_ok)
  show "socks_client_handle False 0 (socks_client_new 9) (FromApp (SReqData [1, 2])) =
      Inr (socks_client_new 9\<lparr>sc_send_bytes := 2\<rparr>, [ToServer (proxy_request_new 9 (PTData [1, 2]))])"
    by (simp add: socks_client_handle.simps handle_socks_request_def socks_client_new_def add_assign_def)
qed simp_all

text \<open>Messages that fit are good for the channel of any codec a start can build.\<close>

lemma fitting_writes:
  assumes "crates_ok L" and "codec_ok L k"
  shows "list_all (\<lambda>x. rng_ok (fst x)) xs \<Longrightarrow> list_all request_fits (map snd xs) \<Longrightarrow>
      \<forall>(g, q) \<in> set xs. request_good L k g q"
    and "list_all (\<lambda>x. rng_ok (fst x)) ys \<Longrightarrow> list_all response_fits (map snd ys) \<Longrightarrow>
      \<forall>(g, r) \<in> set ys. response_good L k g r"
  using assms by (fastforce simp: list_all_iff request_good_def response_good_def request_fits_def response_fits_def)+

text \<open>
  C6: the tunnel's bytes carry the whole system's messages. Take the requests and responses of any
  reachable state of the system and a codec built from any configuration. However the writes of
  these messages, in their order, interleave with the arrival of bytes in either direction, each
  reader has delivered a prefix of them without error, and all of them once its bytes have arrived:
  the queues of the system are what the encrypted streams provide.
\<close>

theorem tunnel_carries_system:
  assumes "crates_ok L" and "proxy_codec_new L crypto = Inr k"
    and "sys_run checks v es s" and "items_fit es" and "reads_fit es"
    and "map snd (writes ups) = sy_got s @ sy_up s" and "list_all (\<lambda>x. rng_ok (fst x)) (writes ups)"
    and "map snd (writes downs) = nd_sent (sy_node s)" and "list_all (\<lambda>x. rng_ok (fst x)) (writes downs)"
  shows "\<exists>c d. channel_run (proxy_request_decode L) (proxy_request_encode L k) (channel_new k n) ups = Inr c \<and>
      channel_run (proxy_response_decode L) (proxy_response_encode L k) (channel_new k n) downs = Inr d \<and>
      ch_fault c = None \<and> ch_fault d = None \<and>
      prefix (ch_items c) (sy_got s @ sy_up s) \<and> prefix (ch_items d) (nd_sent (sy_node s)) \<and>
      (contents (ch_out c) = [] \<longrightarrow> ch_items c = sy_got s @ sy_up s) \<and>
      (contents (ch_out d) = [] \<longrightarrow> ch_items d = nd_sent (sy_node s))"
proof -
  have k: "codec_ok L k" by (rule codec_new_ok [OF crates_okD(3) [OF assms(1)] assms(2)])
  have fits: "list_all request_fits (sy_got s @ sy_up s)" "list_all response_fits (nd_sent (sy_node s))"
    using typed_run [OF assms(3-5)] by (auto simp: list_all_iff typed_def requests_typed_def node_typed_def)
  note up = rqc.channel_is_queue [OF crates_okD(1) [OF assms(1)]
      fitting_writes(1) [OF assms(1) k assms(7) fits(1) [folded assms(6)]], of n]
  note down = rsc.channel_is_queue [OF crates_okD(1) [OF assms(1)]
      fitting_writes(2) [OF assms(1) k assms(9) fits(2) [folded assms(8)]], of n]
  from up down show ?thesis unfolding assms(6,8) by blast
qed

definition ref_ups :: "(nat \<Rightarrow> bytes option, proxy_request) channel_event list" where
  "ref_ups = Arrive 5 # concat (map (\<lambda>q. [Write ref_rng q, Arrive 20]) (sy_got ref_sys @ sy_up ref_sys))"

definition ref_downs :: "(nat \<Rightarrow> bytes option, proxy_response) channel_event list" where
  "ref_downs = map (Write ref_rng) (nd_sent (sy_node ref_sys)) @ [Arrive 30, Arrive 100]"

theorem tunnel_carries_system_witness:
  "\<exists>c d. channel_run (proxy_request_decode ref_crates) (proxy_request_encode ref_crates ref_codec)
        (channel_new ref_codec 0) ref_ups = Inr c \<and>
      channel_run (proxy_response_decode ref_crates) (proxy_response_encode ref_crates ref_codec)
        (channel_new ref_codec 0) ref_downs = Inr d \<and>
      ch_fault c = None \<and> ch_fault d = None \<and>
      prefix (ch_items c) (sy_got ref_sys @ sy_up ref_sys) \<and> prefix (ch_items d) (nd_sent (sy_node ref_sys)) \<and>
      (contents (ch_out c) = [] \<longrightarrow> ch_items c = sy_got ref_sys @ sy_up ref_sys) \<and>
      (contents (ch_out d) = [] \<longrightarrow> ch_items d = nd_sent (sy_node ref_sys))"
  by (rule tunnel_carries_system [OF ref_crates_ok ref_codec_new ref_sys_run])
    (auto simp: items_fit_def reads_fit_def ref_sys_events_def ref_target_def ref_ups_def ref_downs_def
      ref_sys_def ref_rng_ok)

end
