(* ===== verification/Connectors.thy ===== *)
theory Connectors
  imports Launch First_Stream
begin

text \<open>
  The connectors (\<open>just-proxy-lib/src/connector/tcp.rs\<close>, \<open>quic.rs\<close>, \<open>connector.rs\<close>): how the
  client reaches the server and how the server takes clients, over TCP and over QUIC. Sockets,
  QUIC endpoints and their streams are the system's and the QUIC library's: what they deliver is
  a parameter or the event list of a definition. An address is parsed by \<open>parse\<close>, whose failure
  is an \<open>unwrap\<close> that panics.
\<close>

section \<open>Reaching the server\<close>

text \<open>What \<open>connect\<close> does in the end: it hands the stream on or stops the actor system.\<close>

datatype 'w connect_effect = Callback 'w | StopSystem

definition tcp_connect ::
    "(rstring \<Rightarrow> 'a option) \<Rightarrow> ('a \<Rightarrow> 'w option) \<Rightarrow> rstring \<Rightarrow> 'w connect_effect res" where
  "tcp_connect parse connect addr = unwrap (do {
     server_addr \<leftarrow> parse addr;
     Some (case connect server_addr of Some server_stream \<Rightarrow> Callback server_stream | None \<Rightarrow> StopSystem) })"

text \<open>
  The QUIC client's endpoint: always the same local address, only TLS 1.3, and a verifier that
  asserts every certificate.
\<close>

datatype tls_version = TLSv1_2 | TLSv1_3

definition verify_server_cert :: "'roots \<Rightarrow> bytes list \<Rightarrow> rstring \<Rightarrow> bytes \<Rightarrow> unit res" where
  "verify_server_cert roots presented_certs dns_name ocsp = Inr ()"

record quic_client =
  qk_local :: rstring
  qk_versions :: "tls_version list"
  qk_verifier :: "unit \<Rightarrow> bytes list \<Rightarrow> rstring \<Rightarrow> bytes \<Rightarrow> unit res"

definition quic_client_new :: "(rstring \<Rightarrow> bool) \<Rightarrow> quic_client res" where
  "quic_client_new binds =
     (if binds (rstr ''0.0.0.0:12311'')
      then Inr \<lparr>qk_local = rstr ''0.0.0.0:12311'', qk_versions = [TLSv1_3], qk_verifier = verify_server_cert\<rparr>
      else Inl Panic)"

text \<open>
  The future \<open>connect\<close> returns joins two others: connecting and opening a stream, and the
  endpoint's driver. The first error of either ends it and drops the other; then nothing that
  happens matters any more.
\<close>

datatype 'w quic_event = ConnectFailed | OpenFailed | StreamOpened 'w | DriverFailed | DriverDone

record join_state =
  js_stream_done :: bool
  js_driver_done :: bool
  js_ended :: bool

definition join_new :: join_state where
  "join_new = \<lparr>js_stream_done = False, js_driver_done = False, js_ended = False\<rparr>"

fun join_event :: "join_state \<Rightarrow> 'w quic_event \<Rightarrow> 'w connect_effect list \<times> join_state" where
  "join_event j ConnectFailed =
     (if js_stream_done j then ([], j) else ([StopSystem], j\<lparr>js_ended := True\<rparr>))"
| "join_event j OpenFailed =
     (if js_stream_done j then ([], j) else ([], j\<lparr>js_ended := True\<rparr>))"
| "join_event j (StreamOpened stream) =
     (if js_stream_done j then ([], j) else ([Callback stream], j\<lparr>js_stream_done := True\<rparr>))"
| "join_event j DriverFailed =
     (if js_driver_done j then ([], j) else ([StopSystem], j\<lparr>js_ended := True\<rparr>))"
| "join_event j DriverDone =
     (if js_driver_done j then ([], j) else ([], j\<lparr>js_driver_done := True\<rparr>))"

fun join_run :: "join_state \<Rightarrow> 'w quic_event list \<Rightarrow> 'w connect_effect list" where
  "join_run j [] = []"
| "join_run j (e # es) =
     (if js_ended j then []
      else (case join_event j e of (os, j') \<Rightarrow> os @ join_run j' es))"

text \<open>\<open>starts\<close>: whether the endpoint takes the connect at all.\<close>

definition quic_connect ::
    "(rstring \<Rightarrow> 'a option) \<Rightarrow> ('a \<Rightarrow> rstring \<Rightarrow> bool) \<Rightarrow> rstring \<Rightarrow> 'w quic_event list \<Rightarrow>
     'w connect_effect list res" where
  "quic_connect parse starts addr events = unwrap (do {
     remote \<leftarrow> parse addr;
     if starts remote (rstr ''www.baidu.com'') then Some (join_run join_new events) else None })"

section \<open>Taking clients\<close>

text \<open>
  \<open>incoming().for_each\<close>: \<open>None\<close> is a failed accept, which ends the loop.
\<close>

fun accept_all :: "('s \<Rightarrow> 'r) \<Rightarrow> 's option list \<Rightarrow> 'r list" where
  "accept_all f [] = []"
| "accept_all f (Some s # xs) = f s # accept_all f xs"
| "accept_all f (None # xs) = []"

text \<open>Every client gets a thread with an actor of its own, or a thread that panics.\<close>

definition tcp_run_server ::
    "('ok, 'sk, 'x) crates_scheme \<Rightarrow> (rstring \<Rightarrow> 'a option) \<Rightarrow> ('a \<Rightarrow> bool) \<Rightarrow> rstring \<Rightarrow> config \<Rightarrow>
     's option list \<Rightarrow>
     ('s \<times> (('ok, 'sk) proxy_codec \<times> ('ok, 'sk) proxy_codec \<times> 'w proxy_client) res) list res" where
  "tcp_run_server L parse binds addr config incoming = unwrap (do {
     a \<leftarrow> parse addr;
     if binds a
     then Some (accept_all (\<lambda>s. (s, accept_client L (cf_crypto config))) incoming)
     else None })"

text \<open>\<open>listen\<close> hands on the accepted streams, errors without their cause.\<close>

definition tcp_listen ::
    "(rstring \<Rightarrow> 'a option) \<Rightarrow> ('a \<Rightarrow> bool) \<Rightarrow> rstring \<Rightarrow> ('e + 's) list \<Rightarrow> (unit + 's) list res" where
  "tcp_listen parse binds addr incoming = unwrap (do {
     a \<leftarrow> parse addr;
     if binds a then Some (map (map_sum (\<lambda>_. ()) id) incoming) else None })"

text \<open>
  Over QUIC one agent per connection takes its streams; each stream gets an actor on the same
  thread. A unidirectional stream is \<open>unreachable!\<close>.
\<close>

datatype 's new_stream = Bi 's | Uni 's

fun bi_stream :: "'s new_stream \<Rightarrow> 's option" where
  "bi_stream (Bi s) = Some s"
| "bi_stream (Uni s) = None"

definition quic_stream_agent_handle ::
    "('ok, 'sk, 'x) crates_scheme \<Rightarrow> resolved_crypto \<Rightarrow>
     (('ok, 'sk) proxy_codec \<times> ('ok, 'sk) proxy_codec \<times> 'w proxy_client) res" where
  "quic_stream_agent_handle L crypto =
     and_then (proxy_codec_new L crypto) (\<lambda>reader.
     and_then (proxy_codec_new L crypto) (\<lambda>writer.
     Inr (writer, reader, proxy_client_new)))"

text \<open>
  The streams in the order they come, whatever their connections, and the panic that ends the
  thread of them all.
\<close>

fun quic_streams ::
    "('ok, 'sk, 'x) crates_scheme \<Rightarrow> resolved_crypto \<Rightarrow> 's new_stream list \<Rightarrow>
     ('s \<times> ('ok, 'sk) proxy_codec \<times> ('ok, 'sk) proxy_codec \<times> 'w proxy_client) list \<times> fault option" where
  "quic_streams L crypto [] = ([], None)"
| "quic_streams L crypto (s # ss) =
     (case bi_stream s of
        None \<Rightarrow> ([], Some Panic)
      | Some b \<Rightarrow>
          (case quic_stream_agent_handle L crypto of
             Inl f \<Rightarrow> ([], Some f)
           | Inr c \<Rightarrow> (case quic_streams L crypto ss of (cs, f) \<Rightarrow> ((b, c) # cs, f))))"

definition quic_run_server ::
    "('ok, 'sk, 'x) crates_scheme \<Rightarrow> (rstring \<Rightarrow> bool) \<Rightarrow> 'q quinn_config_scheme \<Rightarrow> rstring \<Rightarrow> config \<Rightarrow>
     's new_stream list \<Rightarrow>
     ('q quinn_config_scheme \<times>
      ('s \<times> ('ok, 'sk) proxy_codec \<times> ('ok, 'sk) proxy_codec \<times> 'w proxy_client) list \<times> fault option) res" where
  "quic_run_server L binds dflt addr config streams =
     (let quic_config = to_quinn_config dflt (cf_quic config); crypto_config = cf_crypto config in
      if binds addr then Inr (quic_config, quic_streams L crypto_config streams) else Inl Panic)"

section \<open>The QUIC listener\<close>

text \<open>
  \<open>listen\<close>: the first stream of each connection, by \<open>OnlyFirstStream\<close> and \<open>flatten\<close>. A
  connection is the list of what polling its streams gives, not ready when that is used up; the
  state is the connection being polled with its flag and the connections waiting.
\<close>

type_synonym 'i listener = "('i poll list \<times> bool) option \<times> 'i poll list list"

definition quic_listen_config :: "'q quinn_config_scheme \<Rightarrow> 'q quinn_config_scheme" where
  "quic_listen_config dflt = dflt\<lparr>qn_idle_timeout := 100\<rparr>"

definition head_poll :: "'i poll list \<Rightarrow> 'i poll" where
  "head_poll c = (case c of [] \<Rightarrow> NotReady | p # _ \<Rightarrow> p)"

function flatten_poll :: "('i poll list \<times> bool) option \<Rightarrow> 'i poll list list \<Rightarrow> 'i poll \<times> 'i listener" where
  "flatten_poll None [] = (NotReady, None, [])"
| "flatten_poll None (c # cs) = flatten_poll (Some (c, False)) cs"
| "flatten_poll (Some (c, first_taken)) cs =
     (case only_first_poll (head_poll c) first_taken of
        (Ready None, _) \<Rightarrow> flatten_poll None cs
      | (r, first_taken) \<Rightarrow> (r, Some (tl c, first_taken), cs))"
  by pat_completeness auto
termination
  by (relation "measure (\<lambda>(cur, cs). 2 * length cs + (case cur of None \<Rightarrow> 0 | Some _ \<Rightarrow> 1))") auto

declare flatten_poll.simps(3) [simp del]

fun listened :: "'s new_stream poll \<Rightarrow> 's poll res" where
  "listened (Ready (Some (Bi stream))) = Inr (Ready (Some stream))"
| "listened (Ready (Some (Uni stream))) = Inl Panic"
| "listened (Ready None) = Inr (Ready None)"
| "listened NotReady = Inr NotReady"
| "listened PollError = Inr PollError"

text \<open>\<open>n\<close> polls of the listener.\<close>

fun listen_polls :: "nat \<Rightarrow> 's new_stream listener \<Rightarrow> 's poll res list" where
  "listen_polls 0 l = []"
| "listen_polls (Suc n) (cur, cs) =
     (case flatten_poll cur cs of (r, l) \<Rightarrow> listened r # listen_polls n l)"

text \<open>
  A connection whose stream was taken is left at the next poll; one that opens none is not left.
\<close>

lemma taken_left: "flatten_poll (Some (c, True)) cs = flatten_poll None cs"
  by (simp add: flatten_poll.simps(3))

lemma not_ready_kept:
  "\<forall>p \<in> set c. p = NotReady \<Longrightarrow> flatten_poll (Some (c, False)) cs = (NotReady, Some (tl c, False), cs)"
  by (cases c) (simp_all add: flatten_poll.simps(3) head_poll_def)

lemma listen_polls_blocked:
  "\<forall>p \<in> set c. p = NotReady \<Longrightarrow> listen_polls n (Some (c, False), cs) = replicate n (Inr NotReady)"
proof (induction n arbitrary: c)
  case (Suc n)
  moreover from Suc.prems have "\<forall>p \<in> set (tl c). p = NotReady" by (cases c) auto
  ultimately show ?case by (simp add: not_ready_kept)
qed simp

lemma listen_polls_firsts:
  assumes "\<forall>p \<in> set b. p = NotReady"
  shows "listen_polls (length firsts + n)
      (Some (c, True), map (\<lambda>(s, rest). Ready (Some (Bi s)) # rest) firsts @ b # cs) =
     map (\<lambda>(s, rest). Inr (Ready (Some s))) firsts @ replicate n (Inr NotReady)"
proof (induction firsts arbitrary: c)
  case Nil
  have "\<forall>p \<in> set (tl b). p = NotReady" using assms by (cases b) auto
  with listen_polls_blocked [OF this, of _ cs] assms show ?case
    by (cases n) (simp_all add: taken_left not_ready_kept)
next
  case (Cons x firsts)
  obtain s rest where "x = (s, rest)" by (cases x)
  with Cons.IH [of rest] show ?case by (simp add: taken_left flatten_poll.simps(3) head_poll_def)
qed

section \<open>Properties\<close>

text \<open>
  What the QUIC listener hands on: the first stream of each connection, in the order of the
  connections, whatever other streams they open; but a connection that opens none holds up all
  connections behind it for ever.
\<close>

theorem listener_takes_first_streams:
  assumes "\<forall>p \<in> set b. p = NotReady"
  shows "listen_polls (length firsts + n)
      (None, map (\<lambda>(s, rest). Ready (Some (Bi s)) # rest) firsts @ b # cs) =
    map (\<lambda>(s, rest). Inr (Ready (Some s))) firsts @ replicate n (Inr NotReady)"
proof -
  have "listen_polls k (None, ds) = listen_polls k (Some ([], True), ds)" for k and ds :: "'a new_stream poll list list"
    by (cases k) (simp_all add: taken_left)
  then show ?thesis using listen_polls_firsts [OF assms] by simp
qed

definition ref_firsts :: "(nat \<times> nat new_stream poll list) list" where
  "ref_firsts = [(5, [Ready (Some (Uni 6))]), (8, [])]"

theorem listener_takes_first_streams_witness:
  "listen_polls (length ref_firsts + 3)
      (None, map (\<lambda>(s, rest). Ready (Some (Bi s)) # rest) ref_firsts @ [NotReady] # [[Ready (Some (Bi 7))]]) =
    map (\<lambda>(s, rest). Inr (Ready (Some s))) ref_firsts @ replicate 3 (Inr NotReady)"
  by (rule listener_takes_first_streams) simp

lemma accept_all_eq: "accept_all f xs = map (f \<circ> the) (takeWhile (\<lambda>x. x \<noteq> None) xs)"
  by (induction f xs rule: accept_all.induct) simp_all

lemma quic_streams_eq:
  assumes "quic_stream_agent_handle L crypto = Inr c"
  shows "quic_streams L crypto ss =
    (map (\<lambda>s. (the (bi_stream s), c)) (takeWhile (\<lambda>s. bi_stream s \<noteq> None) ss),
     if \<forall>s \<in> set ss. bi_stream s \<noteq> None then None else Some Panic)"
  by (induction ss) (auto simp: assms split: option.splits)

lemma to_quinn_config_launch: "to_quinn_config dflt launch_quic_config = dflt"
  by (simp add: to_quinn_config_def launch_quic_config_def if_some_def Let_def)

text \<open>
  C19: the server takes every client, until accepting fails. A started server whose address is free
  gives every TCP stream accepted, up to the first failed accept, after which it takes none, and
  every QUIC stream, up to the first unidirectional one, which panics, an actor without connections
  and two codecs equal to those of a client started with any options. The QUIC parameters are
  the library's own.
\<close>

theorem server_takes_clients:
  assumes "ring_ok L" and "run_server so = Inr (t, a, cfg)" and "run_client listens co = Inr (t', a', cfg')"
    and "parse a = Some sa" and "binds sa" and "binds' a"
  shows "\<exists>k s. connect_callback L clock (cf_crypto cfg') = Inr (k, k, s) \<and>
    tcp_run_server L parse binds a cfg incoming =
      Inr (map (\<lambda>s. (the s, Inr (k, k, proxy_client_new))) (takeWhile (\<lambda>s. s \<noteq> None) incoming)) \<and>
    quic_run_server L binds' dflt a cfg streams =
      Inr (dflt, map (\<lambda>s. (the (bi_stream s), k, k, proxy_client_new)) (takeWhile (\<lambda>s. bi_stream s \<noteq> None) streams),
        if \<forall>s \<in> set streams. bi_stream s \<noteq> None then None else Some Panic)"
proof -
  from launch_codec [OF assms(1)] obtain k where k: "proxy_codec_new L launch_crypto = Inr k" by blast
  have crypto: "cf_crypto cfg = launch_crypto" "cf_crypto cfg' = launch_crypto"
    using run_server_crypto [OF assms(2)] run_client_crypto [OF assms(3)] .
  have quic: "cf_quic cfg = launch_quic_config"
    using assms(2) by (auto simp: run_server_def Let_def convert_launch split: if_splits)
  have "quic_stream_agent_handle L launch_crypto = Inr (k, k, proxy_client_new)"
    by (simp add: quic_stream_agent_handle_def and_then_def k)
  from quic_streams_eq [OF this, of streams] show ?thesis
    using assms(4-6) by (simp add: tcp_run_server_def quic_run_server_def accept_all_eq accept_client_def
        connect_callback_def and_then_def k crypto quic to_quinn_config_launch comp_def)
qed

definition ref_quinn :: quinn_config where
  "ref_quinn = \<lparr>qn_stream_window_bidi = 1, qn_idle_timeout = 2, qn_stream_receive_window = 3,
     qn_receive_window = 4, qn_max_tlps = 5, qn_packet_threshold = 6, qn_time_threshold = 7,
     qn_delayed_ack_timeout = 8, qn_initial_rtt = 9, qn_max_datagram_size = 10, qn_initial_window = 11,
     qn_minimum_window = 12, qn_loss_reduction_factor = 13, qn_persistent_congestion_threshold = 14,
     qn_local_cid_len = 15\<rparr>"

theorem server_takes_clients_witness:
  "\<exists>k s. connect_callback ref_crates id (cf_crypto \<lparr>cf_quic = launch_quic_config, cf_crypto = launch_crypto\<rparr>) =
      Inr (k, k, s) \<and>
    tcp_run_server ref_crates Some (\<lambda>a. True) (rstr ''p'' @ rstr '':'' @ display_i64 2)
        \<lparr>cf_quic = launch_quic_config, cf_crypto = launch_crypto\<rparr> [Some (4 :: nat), None, Some 5] =
      Inr (map (\<lambda>s. (the s, Inr (k, k, proxy_client_new))) (takeWhile (\<lambda>s. s \<noteq> None) [Some 4, None, Some 5])) \<and>
    quic_run_server ref_crates (\<lambda>a. True) ref_quinn (rstr ''p'' @ rstr '':'' @ display_i64 2)
        \<lparr>cf_quic = launch_quic_config, cf_crypto = launch_crypto\<rparr> [Bi (4 :: nat), Uni 5] =
      Inr (ref_quinn, map (\<lambda>s. (the (bi_stream s), k, k, proxy_client_new))
          (takeWhile (\<lambda>s. bi_stream s \<noteq> None) [Bi 4, Uni 5]),
        if \<forall>s \<in> set [Bi (4 :: nat), Uni 5]. bi_stream s \<noteq> None then None else Some Panic)"
  by (rule server_takes_clients [OF ref_ring_ok ref_launched(2) ref_launched(1)]) simp_all

end
