(* ===== verification/Certificates.thy ===== *)
theory Certificates
  imports Rust_Std
begin

text \<open>
  The QUIC server's certificate (\<open>QuicServerConnector::new_dangerous\<close> in
  \<open>just-proxy-lib/src/connector/quic.rs\<close>): read from the user's data directory, or generated and
  stored there. The file system is a map from paths to contents; \<open>cert_env\<close> says what the system
  lets a start do. Generating certificates and checking DER are the crates' (\<open>cert_crates\<close>).
\<close>

section \<open>Files\<close>

type_synonym disk = "rstring \<Rightarrow> bytes option"

datatype io_kind = NotFound | OtherKind

text \<open>
  \<open>ce_write_fails p\<close>: writing \<open>p\<close> fails, and leaves the file as given. \<open>ce_dir\<close> is the data
  directory, if the user has one.
\<close>

record cert_env =
  ce_dir :: "rstring option"
  ce_readable :: "rstring \<Rightarrow> bool"
  ce_mkdir :: bool
  ce_write_fails :: "rstring \<Rightarrow> bytes option option"

definition fs_read :: "cert_env \<Rightarrow> disk \<Rightarrow> rstring \<Rightarrow> io_kind + bytes" where
  "fs_read env disk p =
     (if ce_readable env p then (case disk p of None \<Rightarrow> Inl NotFound | Some x \<Rightarrow> Inr x) else Inl OtherKind)"

definition fs_write :: "cert_env \<Rightarrow> disk \<Rightarrow> rstring \<Rightarrow> bytes \<Rightarrow> bool \<times> disk" where
  "fs_write env disk p d =
     (case ce_write_fails env p of
        None \<Rightarrow> (True, disk(p \<mapsto> d))
      | Some left \<Rightarrow> (False, disk(p := left)))"

section \<open>The start\<close>

text \<open>\<open>cx_generate\<close>: the private key and the certificate generated from some randomness.\<close>

record 'r cert_crates =
  cx_generate :: "'r \<Rightarrow> bytes \<times> bytes"
  cx_key_ok :: "bytes \<Rightarrow> bool"
  cx_cert_ok :: "bytes \<Rightarrow> bool"
  cx_pair_ok :: "bytes \<Rightarrow> bytes \<Rightarrow> bool"

definition cert_path :: "rstring \<Rightarrow> rstring" where
  "cert_path path = path @ rstr ''/cert.der''"

definition key_path :: "rstring \<Rightarrow> rstring" where
  "key_path path = path @ rstr ''/key.der''"

text \<open>The certificate and its key, \<open>None\<close> for a panic, and the files afterwards.\<close>

definition read_or_generate ::
    "'r cert_crates \<Rightarrow> cert_env \<Rightarrow> 'r \<Rightarrow> rstring \<Rightarrow> disk \<Rightarrow> (bytes \<times> bytes) option \<times> disk" where
  "read_or_generate cx env r path disk =
     (case fs_read env disk (cert_path path) of
        Inr x \<Rightarrow>
          (case fs_read env disk (key_path path) of
             Inr k \<Rightarrow> (Some (x, k), disk)
           | Inl e \<Rightarrow> (None, disk))
      | Inl NotFound \<Rightarrow>
          (case cx_generate cx r of (key, cert) \<Rightarrow>
             if \<not> ce_mkdir env then (None, disk)
             else (case fs_write env disk (cert_path path) cert of
                     (False, disk) \<Rightarrow> (None, disk)
                   | (True, disk) \<Rightarrow>
                       (case fs_write env disk (key_path path) key of
                          (False, disk) \<Rightarrow> (None, disk)
                        | (True, disk) \<Rightarrow> (Some (cert, key), disk))))
      | Inl OtherKind \<Rightarrow> (None, disk))"

definition quic_server_new ::
    "'r cert_crates \<Rightarrow> cert_env \<Rightarrow> 'r \<Rightarrow> disk \<Rightarrow> (bytes \<times> bytes) res \<times> disk" where
  "quic_server_new cx env r disk =
     (case ce_dir env of
        None \<Rightarrow> (Inl Panic, disk)
      | Some path \<Rightarrow>
          (case read_or_generate cx env r path disk of
             (None, disk) \<Rightarrow> (Inl Panic, disk)
           | (Some (cert, key), disk) \<Rightarrow>
               (if cx_key_ok cx key \<and> cx_cert_ok cx cert \<and> cx_pair_ok cx cert key
                then (Inr (cert, key), disk) else (Inl Panic, disk))))"

section \<open>Properties\<close>

lemma paths_differ [simp]: "cert_path path \<noteq> key_path path" "key_path path \<noteq> cert_path path"
  by (simp_all add: cert_path_def key_path_def rstr_def)

text \<open>A store that holds both files is what a start uses, and leaves as it is.\<close>

lemma stored_is_used:
  assumes "disk (cert_path path) = Some cert" and "disk (key_path path) = Some key"
    and "ce_readable env (cert_path path)" and "ce_readable env (key_path path)"
  shows "read_or_generate cx env r path disk = (Some (cert, key), disk)"
  using assms by (simp add: read_or_generate_def fs_read_def)

lemma started_is_stored:
  assumes "read_or_generate cx env r path disk = (Some (cert, key), disk')"
  shows "disk' (cert_path path) = Some cert \<and> disk' (key_path path) = Some key"
  using assms by (auto simp: read_or_generate_def fs_read_def fs_write_def
      split: option.splits if_splits prod.splits)

lemma certificate_without_key:
  assumes "disk (cert_path path) = Some cert" and "disk (key_path path) = None"
  shows "read_or_generate cx env r path disk = (None, disk)"
  using assms by (simp add: read_or_generate_def fs_read_def)

text \<open>
  C31: the server keeps its identity. Once a start has succeeded, whether it generated the
  certificate or found it, every later start that can read the two files succeeds with the same
  certificate and key, whatever it would generate and whatever it could not write, and leaves the
  files as they are.
\<close>

theorem certificate_kept:
  assumes "quic_server_new cx env r disk = (Inr (cert, key), disk')" and "ce_dir env' = ce_dir env"
    and "\<forall>p. ce_readable env' p"
  shows "quic_server_new cx env' r' disk' = (Inr (cert, key), disk')"
proof -
  from assms(1) obtain path where path: "ce_dir env = Some path"
    and start: "read_or_generate cx env r path disk = (Some (cert, key), disk')"
    and ok: "cx_key_ok cx key" "cx_cert_ok cx cert" "cx_pair_ok cx cert key"
    by (auto simp: quic_server_new_def split: option.splits prod.splits if_splits)
  from started_is_stored [OF start] assms(3) have "read_or_generate cx env' r' path disk' = (Some (cert, key), disk')"
    by (intro stored_is_used) auto
  with path ok assms(2) show ?thesis by (simp add: quic_server_new_def)
qed

definition ref_certs :: "nat cert_crates" where
  "ref_certs = \<lparr>cx_generate = (\<lambda>r. ([1, word_of_nat r], [2, word_of_nat r])), cx_key_ok = (\<lambda>k. length k = 2),
     cx_cert_ok = (\<lambda>c. length c = 2), cx_pair_ok = (\<lambda>c k. tl c = tl k)\<rparr>"

definition ref_cert_env :: cert_env where
  "ref_cert_env = \<lparr>ce_dir = Some [47], ce_readable = (\<lambda>p. True), ce_mkdir = True, ce_write_fails = (\<lambda>p. None)\<rparr>"

theorem certificate_kept_witness:
  "quic_server_new ref_certs (ref_cert_env\<lparr>ce_mkdir := False\<rparr>) 8
      [cert_path [47] \<mapsto> [2, 7], key_path [47] \<mapsto> [1, 7]] =
    (Inr ([2, 7], [1, 7]), [cert_path [47] \<mapsto> [2, 7], key_path [47] \<mapsto> [1, 7]])"
  by (rule certificate_kept [where env = ref_cert_env and r = 7 and disk = Map.empty])
    (simp_all add: quic_server_new_def read_or_generate_def fs_read_def fs_write_def ref_cert_env_def ref_certs_def)

text \<open>
  C32: a start cut short is never made good. When the first start has stored the certificate but
  cannot store its key, it panics, and so does every start after it, on whatever system and with
  whatever generated, leaving the half-written store as it is.
\<close>

theorem half_written_store_panics:
  assumes "ce_dir env = Some path" and "disk (cert_path path) = None" and "disk (key_path path) = None"
    and "ce_readable env (cert_path path)" and "ce_mkdir env"
    and "ce_write_fails env (cert_path path) = None" and "ce_write_fails env (key_path path) = Some None"
    and "ce_dir env' = Some path"
  shows "\<exists>disk'. quic_server_new cx env r disk = (Inl Panic, disk') \<and>
    quic_server_new cx env' r' disk' = (Inl Panic, disk')"
proof -
  obtain key cert where g: "cx_generate cx r = (key, cert)" by (cases "cx_generate cx r")
  let ?disk = "disk(cert_path path \<mapsto> cert)"
  have same: "?disk(key_path path := None) = ?disk" using assms(3) by (auto simp: fun_eq_iff)
  have "read_or_generate cx env r path disk = (None, ?disk(key_path path := None))"
    using assms(2-7) g by (simp add: read_or_generate_def fs_read_def fs_write_def del: fun_upd_apply)
  moreover have "read_or_generate cx env' r' path ?disk = (None, ?disk)"
    using assms(3) by (intro certificate_without_key) auto
  ultimately show ?thesis
    unfolding same using assms(1,8) by (intro exI [of _ ?disk]) (simp add: quic_server_new_def)
qed

theorem half_written_store_panics_witness:
  "\<exists>disk'. quic_server_new ref_certs (ref_cert_env\<lparr>ce_write_fails := (\<lambda>p. if p = key_path [47] then Some None else None)\<rparr>)
      7 Map.empty = (Inl Panic, disk') \<and>
    quic_server_new ref_certs ref_cert_env 8 disk' = (Inl Panic, disk')"
  by (rule half_written_store_panics [where path = "[47]"]) (simp_all add: ref_cert_env_def)

end
