(* ===== verification/Main_Program.thy ===== *)
theory Main_Program
  imports Cli_Config Connectors
begin

text \<open>
  The program from its command line on (\<open>just-proxy-bin/src/main.rs\<close>): dumping the configuration,
  going to the background, serving, and the client with its retry loop, down to the connector and
  the actor of the tunnel. \<open>None\<close> as the result of something that runs means that it does not
  return.
\<close>

section \<open>One run of the client\<close>

text \<open>What the system and the network do during one run of the client.\<close>

record ('a, 'w) network =
  nw_listens :: "rstring \<Rightarrow> bool"
  nw_parse :: "rstring \<Rightarrow> 'a option"
  nw_tcp :: "'a \<Rightarrow> 'w option"
  nw_binds :: "rstring \<Rightarrow> bool"
  nw_starts :: "'a \<Rightarrow> rstring \<Rightarrow> bool"
  nw_quic :: "'w quic_event list"

text \<open>The connector's effects and the configuration handed to the callback.\<close>

definition client_connects ::
    "('a, 'w) network \<Rightarrow> client_opt \<Rightarrow> ('w connect_effect list \<times> config) res" where
  "client_connects nw opt =
     and_then (run_client (nw_listens nw) opt) (\<lambda>(t, addr, cfg).
       case t of
         TcpTransport \<Rightarrow>
           and_then (tcp_connect (nw_parse nw) (nw_tcp nw) addr) (\<lambda>e. Inr ([e], cfg))
       | QuicTransport \<Rightarrow>
           and_then (quic_client_new (nw_binds nw)) (\<lambda>_.
           and_then (quic_connect (nw_parse nw) (nw_starts nw) addr (nw_quic nw)) (\<lambda>es. Inr (es, cfg))))"

text \<open>
  The actor system runs until it is stopped or a panic unwinds it; \<open>ms\<close> are the messages the
  tunnel's actor gets once it is there.
\<close>

fun system_runs ::
    "('ok, 'sk, 'x) crates_scheme \<Rightarrow> bool \<Rightarrow> clock \<Rightarrow> resolved_crypto \<Rightarrow>
     (clock \<times> 'addr server_msg) list \<Rightarrow> 'w connect_effect list \<Rightarrow> unit res option" where
  "system_runs L checks clock crypto ms [] = None"
| "system_runs L checks clock crypto ms (StopSystem # es) = Some (Inr ())"
| "system_runs L checks clock crypto ms (Callback stream # es) =
     (case connect_callback L clock crypto of
        Inl f \<Rightarrow> Some (Inl f)
      | Inr (reader, writer, s) \<Rightarrow>
          (case run_actor (server_handle checks) stops_server s ms of
             (_, Crashed f, _) \<Rightarrow> Some (Inl f)
           | _ \<Rightarrow> system_runs L checks clock crypto ms es))"

definition client_attempt ::
    "('ok, 'sk, 'x) crates_scheme \<Rightarrow> bool \<Rightarrow> clock \<Rightarrow> ('a, 'w) network \<Rightarrow>
     (clock \<times> 'addr server_msg) list \<Rightarrow> client_opt \<Rightarrow> unit res option" where
  "client_attempt L checks clock nw ms opt =
     (case client_connects nw opt of
        Inl f \<Rightarrow> Some (Inl f)
      | Inr (es, cfg) \<Rightarrow> system_runs L checks clock (cf_crypto cfg) ms es)"

section \<open>The main function\<close>

text \<open>
  \<open>loop { run_client(..); sleep(..) }\<close>; \<open>attempt i\<close> is the \<open>i\<close>-th round.
\<close>

partial_function (option) retry_loop :: "(nat \<Rightarrow> unit res option) \<Rightarrow> nat \<Rightarrow> unit res option" where
  "retry_loop attempt i =
     (case attempt i of
        None \<Rightarrow> None
      | Some r \<Rightarrow> (case r of Inl f \<Rightarrow> Some (Inl f) | Inr _ \<Rightarrow> retry_loop attempt (Suc i)))"

text \<open>
  \<open>file i\<close> is the configuration file as the \<open>i\<close>-th round finds it, \<open>serve\<close> and \<open>attempt i\<close> what
  running the server and the client does.
\<close>

definition bin_run ::
    "(nat \<Rightarrow> rstring \<Rightarrow> json option) \<Rightarrow> (server_opt \<Rightarrow> unit res option) \<Rightarrow>
     (nat \<Rightarrow> client_opt \<Rightarrow> unit res option) \<Rightarrow> bin_opt \<Rightarrow> unit res option" where
  "bin_run file serve attempt opt =
     (let client = (\<lambda>i. case to_client_config (file i) opt of
                          Inl f \<Rightarrow> Some (Inl f) | Inr co \<Rightarrow> attempt i co)
      in if bo_server opt
         then (case to_server_config (file 0) opt of Inl f \<Rightarrow> Some (Inl f) | Inr so \<Rightarrow> serve so)
         else if bo_retry opt then retry_loop client 0
         else client 0)"

datatype main_result = Dumped json | NotDaemonized | Ran "unit res option"

text \<open>
  \<open>creates p\<close>: the file \<open>p\<close> can be created; \<open>daemonizes p\<close>: going to the background with the pid
  file \<open>p\<close> works.
\<close>

definition bin_main ::
    "(rstring \<Rightarrow> bool) \<Rightarrow> (rstring \<Rightarrow> bool) \<Rightarrow> (nat \<Rightarrow> rstring \<Rightarrow> json option) \<Rightarrow>
     (server_opt \<Rightarrow> unit res option) \<Rightarrow> (nat \<Rightarrow> client_opt \<Rightarrow> unit res option) \<Rightarrow> bin_opt \<Rightarrow>
     main_result" where
  "bin_main creates daemonizes file serve attempt opt =
     (if bo_dump_config opt then Dumped dump_config
      else if bo_daemon opt then
        (let name = (if bo_server opt then rstr ''/tmp/justproxy-server'' else rstr ''/tmp/justproxy-client'')
         in if \<not> creates (name @ rstr ''.out'') \<or> \<not> creates (name @ rstr ''.err'') then Ran (Some (Inl Panic))
            else if daemonizes (name @ rstr ''.pid'') then Ran (bin_run file serve attempt opt)
            else NotDaemonized)
      else Ran (bin_run file serve attempt opt))"

section \<open>The retry loop\<close>

lemma retry_loop_returned: "attempt i = Some (Inr ()) \<Longrightarrow> retry_loop attempt i = retry_loop attempt (Suc i)"
  by (subst retry_loop.simps) simp

lemma retry_loop_after:
  "\<forall>j < k. attempt (i + j) = Some (Inr ()) \<Longrightarrow> retry_loop attempt i = retry_loop attempt (i + k)"
proof (induction k)
  case (Suc k)
  then have "retry_loop attempt i = retry_loop attempt (i + k)" "attempt (i + k) = Some (Inr ())" by simp_all
  then show ?case by (simp add: retry_loop_returned)
qed simp

text \<open>If the loop ends, a round has panicked after rounds that returned.\<close>

lemma retry_loop_ends:
  assumes "retry_loop attempt i = Some r"
  shows "\<exists>k f. r = Inl f \<and> attempt (i + k) = Some (Inl f) \<and> (\<forall>j < k. attempt (i + j) = Some (Inr ()))"
proof (induction attempt i r rule: retry_loop.raw_induct)
  case (1 retry attempt i r)
  then obtain x where x: "attempt i = Some x" by (cases "attempt i") auto
  show ?case
  proof (cases x)
    case (Inl f)
    with 1(2) x show ?thesis by (intro exI [of _ 0] exI [of _ f]) simp
  next
    case (Inr u)
    with 1(2) x have "retry attempt (Suc i) = Some r" by simp
    from 1(1) [OF this] obtain k f where k: "r = Inl f" "attempt (Suc i + k) = Some (Inl f)"
      "\<forall>j < k. attempt (Suc i + j) = Some (Inr ())" by blast
    have "attempt (i + j) = Some (Inr ())" if "j < Suc k" for j
      using that k(3) x Inr by (cases j) auto
    with k show ?thesis by (intro exI [of _ "Suc k"] exI [of _ f]) simp
  qed
qed (rule assms)

lemma retry_loop_panics:
  assumes "attempt (i + k) = Some (Inl f)" and "\<forall>j < k. attempt (i + j) = Some (Inr ())"
  shows "retry_loop attempt i = Some (Inl f)"
  using retry_loop_after [OF assms(2)] assms(1) by (simp add: retry_loop.simps [of attempt "i + k"])

lemma retry_loop_result:
  "retry_loop attempt 0 \<noteq> Some (Inr ())"
  "retry_loop attempt 0 = Some (Inl f) \<longleftrightarrow>
     (\<exists>k. attempt k = Some (Inl f) \<and> (\<forall>j < k. attempt j = Some (Inr ())))"
  using retry_loop_ends [of attempt 0] retry_loop_panics [of attempt 0 _ f] by (force, force)

section \<open>Properties\<close>

text \<open>
  Whether a client gets past the default configuration's dump and into the background, to \<open>run\<close>.
\<close>

definition gets_to_run :: "(rstring \<Rightarrow> bool) \<Rightarrow> (rstring \<Rightarrow> bool) \<Rightarrow> bin_opt \<Rightarrow> bool" where
  "gets_to_run creates daemonizes opt \<longleftrightarrow> \<not> bo_dump_config opt \<and>
     (bo_daemon opt \<longrightarrow> creates (rstr ''/tmp/justproxy-client.out'') \<and>
        creates (rstr ''/tmp/justproxy-client.err'') \<and> daemonizes (rstr ''/tmp/justproxy-client.pid''))"

text \<open>
  C20: with \<open>--retry\<close> a client that gets to its loop never leaves it by itself. Whatever the other
  options, no run of the client returns normally from the loop. A client that gets to run ends
  exactly when some round panics after rounds that all returned, with that panic, and a round is
  reading the configuration and running the client. One that does not get to run has dumped the
  default configuration, could not go to the background, or panicked on a log file it could not
  create.
\<close>

theorem retrying_client_never_returns:
  assumes "\<not> bo_server opt" and "bo_retry opt"
  shows "bin_main creates daemonizes file serve attempt opt \<noteq> Ran (Some (Inr ())) \<and>
    (if gets_to_run creates daemonizes opt
     then \<exists>r. bin_main creates daemonizes file serve attempt opt = Ran r \<and>
       (\<forall>f. r = Some (Inl f) \<longleftrightarrow>
         (\<exists>k. (case to_client_config (file k) opt of Inl g \<Rightarrow> g = f | Inr co \<Rightarrow> attempt k co = Some (Inl f)) \<and>
           (\<forall>j < k. \<exists>co. to_client_config (file j) opt = Inr co \<and> attempt j co = Some (Inr ()))))
     else bin_main creates daemonizes file serve attempt opt =
       (if bo_dump_config opt then Dumped dump_config
        else if creates (rstr ''/tmp/justproxy-client.out'') \<and> creates (rstr ''/tmp/justproxy-client.err'')
        then NotDaemonized else Ran (Some (Inl Panic))))"
proof -
  let ?round = "\<lambda>i. case to_client_config (file i) opt of Inl f \<Rightarrow> Some (Inl f) | Inr co \<Rightarrow> attempt i co"
  have panics: "?round k = Some (Inl f) \<longleftrightarrow>
      (case to_client_config (file k) opt of Inl g \<Rightarrow> g = f | Inr co \<Rightarrow> attempt k co = Some (Inl f))" for k f
    by (auto split: sum.splits)
  have returns: "?round j = Some (Inr ()) \<longleftrightarrow>
      (\<exists>co. to_client_config (file j) opt = Inr co \<and> attempt j co = Some (Inr ()))" for j
    by (auto split: sum.splits)
  have never: "retry_loop ?round 0 \<noteq> Some (Inr ())" by (rule retry_loop_result)
  have "retry_loop ?round 0 = Some (Inl f) \<longleftrightarrow>
      (\<exists>k. ?round k = Some (Inl f) \<and> (\<forall>j < k. ?round j = Some (Inr ())))" for f
    by (rule retry_loop_result)
  note ends = this [unfolded panics returns]
  have main: "bin_main creates daemonizes file serve attempt opt =
      (if gets_to_run creates daemonizes opt then Ran (retry_loop ?round 0)
       else if bo_dump_config opt then Dumped dump_config
       else if creates (rstr ''/tmp/justproxy-client.out'') \<and> creates (rstr ''/tmp/justproxy-client.err'')
       then NotDaemonized else Ran (Some (Inl Panic)))"
    using assms by (simp add: bin_main_def bin_run_def gets_to_run_def Let_def rstr_def)
  show ?thesis using never ends by (simp add: main)
qed

definition ref_bin_opt :: bin_opt where
  "ref_bin_opt = \<lparr>bo_verbose = False, bo_socks_host = rstr ''h'', bo_proxy_host = rstr ''p'', bo_socks_port = 1,
     bo_proxy_port = 2, bo_protocol = rstr ''tcp'', bo_server = False, bo_config_path = rstr ''c'',
     bo_dump_config = False, bo_retry = True, bo_retry_interval = 5, bo_daemon = False\<rparr>"

definition ref_file :: "nat \<Rightarrow> rstring \<Rightarrow> json option" where
  "ref_file i path = Some dump_config"

definition ref_attempt :: "nat \<Rightarrow> client_opt \<Rightarrow> unit res option" where
  "ref_attempt i co = (if i < 3 then Some (Inr ()) else None)"

theorem retrying_client_never_returns_witness:
  "bin_main (\<lambda>p. True) (\<lambda>p. True) ref_file (\<lambda>so. None) ref_attempt ref_bin_opt \<noteq> Ran (Some (Inr ())) \<and>
    (if gets_to_run (\<lambda>p. True) (\<lambda>p. True) ref_bin_opt
     then \<exists>r. bin_main (\<lambda>p. True) (\<lambda>p. True) ref_file (\<lambda>so. None) ref_attempt ref_bin_opt = Ran r \<and>
       (\<forall>f. r = Some (Inl f) \<longleftrightarrow>
         (\<exists>k. (case to_client_config (ref_file k) ref_bin_opt of
                 Inl g \<Rightarrow> g = f | Inr co \<Rightarrow> ref_attempt k co = Some (Inl f)) \<and>
           (\<forall>j < k. \<exists>co. to_client_config (ref_file j) ref_bin_opt = Inr co \<and> ref_attempt j co = Some (Inr ()))))
     else bin_main (\<lambda>p. True) (\<lambda>p. True) ref_file (\<lambda>so. None) ref_attempt ref_bin_opt =
       (if bo_dump_config ref_bin_opt then Dumped dump_config
        else if (\<lambda>p. True) (rstr ''/tmp/justproxy-client.out'') \<and> (\<lambda>p. True) (rstr ''/tmp/justproxy-client.err'')
        then NotDaemonized else Ran (Some (Inl Panic))))"
  by (rule retrying_client_never_returns) (simp_all add: ref_bin_opt_def)

text \<open>Once connected, the actor system is never stopped by the tunnel's actor.\<close>

lemma server_faults: "server_handle checks clock s m = Inl f \<Longrightarrow> f = Panic"
  by (cases m) (auto simp: server_handle.simps server_tick_def server_handle_request_def
      server_handle_response_def server_handle_heartbeat_def server_handle_connected_def server_finished_def
      Let_def split: prod.splits)

lemma server_run_faults:
  "run_actor (server_handle checks) stops_server s ms = (os, Crashed f, t) \<Longrightarrow> f = Panic"
proof (induction ms arbitrary: s os)
  case (Cons x ms)
  obtain e m where "x = (e, m)" by (cases x)
  with Cons show ?case
    by (auto simp: run_actor.simps dest: server_faults split: sum.splits prod.splits if_splits)
qed simp

lemma connected_runs:
  fixes ms :: "(clock \<times> 'addr server_msg) list"
  assumes "ring_ok L"
  shows "\<exists>r w s. connect_callback L clock launch_crypto = Inr (r, w, s) \<and>
    (\<forall>(stream :: 'w) es. system_runs L checks clock launch_crypto ms (Callback stream # es) =
      (if crashes (run_actor (server_handle checks) stops_server s ms) then Some (Inl Panic)
       else system_runs L checks clock launch_crypto ms es))"
proof -
  from launch_codec [OF assms] obtain k where "proxy_codec_new L launch_crypto = Inr k" by blast
  then obtain s :: "'addr server" where s: "connect_callback L clock launch_crypto = Inr (k, k, s)"
    by (auto simp: connect_callback_def and_then_def)
  obtain os oc s' where run: "run_actor (server_handle checks) stops_server s ms = (os, oc, s')"
    by (cases "run_actor (server_handle checks) stops_server s ms") auto
  then show ?thesis
    using s server_run_faults [of checks s ms os _ s'] by (cases oc) auto
qed

text \<open>
  C21: only a failed connect is ever retried. A run of the client over TCP returns, so that
  \<open>--retry\<close> can start another, exactly when the address parses and the connection attempt fails.
  Once connected, however the tunnel goes on and even when the server closes it, which stops its
  actor, the run either panics or does not return.
\<close>

theorem only_failed_connect_returns:
  fixes nw :: "('a, 'w) network" and ms :: "(clock \<times> 'addr server_msg) list"
  assumes "ring_ok L" and "co_protocol opt = rstr ''tcp''"
    and "nw_listens nw (co_socks_host opt @ rstr '':'' @ display_i64 (co_socks_port opt))"
    and "nw_parse nw (co_proxy_host opt @ rstr '':'' @ display_i64 (co_proxy_port opt)) = Some sa"
  shows "client_attempt L checks clock nw ms opt = Some (Inr ()) \<longleftrightarrow> nw_tcp nw sa = None"
proof -
  have c: "client_connects nw opt =
      Inr ([case nw_tcp nw sa of Some s \<Rightarrow> Callback s | None \<Rightarrow> StopSystem],
        \<lparr>cf_quic = launch_quic_config, cf_crypto = launch_crypto\<rparr>)"
    using assms(2-4) by (simp add: client_connects_def run_client_def Let_def convert_launch tcp_connect_def)
  obtain s :: "'addr server" where "\<forall>(stream :: 'w) es. system_runs L checks clock launch_crypto ms (Callback stream # es) =
      (if crashes (run_actor (server_handle checks) stops_server s ms) then Some (Inl Panic)
       else system_runs L checks clock launch_crypto ms es)"
    using connected_runs [where 'w = 'w, OF assms(1), of clock checks ms] by blast
  with c show ?thesis
    by (cases "nw_tcp nw sa") (simp_all add: client_attempt_def del: system_runs.simps(3))
qed

definition ref_network :: "(rstring, nat) network" where
  "ref_network = \<lparr>nw_listens = (\<lambda>a. True), nw_parse = Some, nw_tcp = (\<lambda>a. Some 4), nw_binds = (\<lambda>a. True),
     nw_starts = (\<lambda>a n. True), nw_quic = [StreamOpened 4]\<rparr>"

theorem only_failed_connect_returns_witness:
  "client_attempt ref_crates True id ref_network [(id, SVFinished :: nat server_msg)] ref_client_opt = Some (Inr ()) \<longleftrightarrow>
    nw_tcp ref_network (co_proxy_host ref_client_opt @ rstr '':'' @ display_i64 (co_proxy_port ref_client_opt)) = None"
  by (rule only_failed_connect_returns [OF ref_ring_ok]) (simp_all add: ref_network_def ref_client_opt_def)

text \<open>
  Over QUIC a connection whose stream cannot be opened is lost without a trace. If opening
  the stream fails while the endpoint is well, neither is the callback called nor the actor system
  stopped, and the run of the client does not return, whatever happens later.
\<close>

theorem failed_open_hangs:
  assumes "co_protocol opt = rstr ''quic''"
    and "nw_listens nw (co_socks_host opt @ rstr '':'' @ display_i64 (co_socks_port opt))"
    and "nw_parse nw (co_proxy_host opt @ rstr '':'' @ display_i64 (co_proxy_port opt)) = Some sa"
    and "nw_binds nw (rstr ''0.0.0.0:12311'')" and "nw_starts nw sa (rstr ''www.baidu.com'')"
    and "nw_quic nw = OpenFailed # later"
  shows "client_connects nw opt = Inr ([], \<lparr>cf_quic = launch_quic_config, cf_crypto = launch_crypto\<rparr>) \<and>
    client_attempt L checks clock nw ms opt = None"
proof -
  have "join_run join_new (OpenFailed # later) = []" by (cases later) (simp_all add: join_new_def)
  then have "client_connects nw opt = Inr ([], \<lparr>cf_quic = launch_quic_config, cf_crypto = launch_crypto\<rparr>)"
    using assms by (simp add: client_connects_def run_client_def Let_def convert_launch quic_connect_def
        quic_client_new_def rstr_def del: join_run.simps)
  then show ?thesis by (simp add: client_attempt_def)
qed

definition ref_quic_opt :: client_opt where
  "ref_quic_opt = ref_client_opt\<lparr>co_protocol := rstr ''quic''\<rparr>"

theorem failed_open_hangs_witness:
  "client_connects (ref_network\<lparr>nw_quic := [OpenFailed, DriverFailed]\<rparr>) ref_quic_opt =
      Inr ([], \<lparr>cf_quic = launch_quic_config, cf_crypto = launch_crypto\<rparr>) \<and>
    client_attempt ref_crates True id (ref_network\<lparr>nw_quic := [OpenFailed, DriverFailed]\<rparr>)
      ([] :: (clock \<times> nat server_msg) list) ref_quic_opt = None"
  by (rule failed_open_hangs) (simp_all add: ref_network_def ref_quic_opt_def)

end
