(* ===== verification/Framed_Actor.thy ===== *)
theory Framed_Actor
  imports Actor Framing "HOL-Library.Sublist"
begin

text \<open>
  An actor with the streams it polls itself. A handler is called for a message of the mailbox,
  for an item of a stream whose closure the actor runs (an accepted connection), and for each
  item its framed reader decodes; and what it writes is encoded within the call. So a panic of a
  closure, of the decoder or of the encoder is a panic of the actor. \<open>framed_step\<close> is that
  actor over any handler, decoder and encoder; \<open>inbox\<close> is what its reader makes of the inputs,
  and the locale \<open>panicking_decoder\<close> shows that the whole actor is its handlers on its inbox.
\<close>

section \<open>The actor and its streams\<close>

text \<open>
  \<open>Mail e (Some m)\<close> is a message of the mailbox or of a stream of messages, \<open>Mail e None\<close> one
  whose making panicked in a closure run by the actor; \<open>Chunk\<close> appends bytes to the read buffer;
  \<open>Poll eof e\<close> polls the reader once, at the end of the transport when \<open>eof\<close>. \<open>e\<close> is what the
  handler called reads from outside.
\<close>

datatype ('e, 'm) input = Mail 'e "'m option" | Chunk bytes | Poll bool 'e

type_synonym 'd reader = "('d \<times> bytes) option"

text \<open>
  The reader is gone once its stream has ended: after an error of the decoder, for which
  \<open>StreamHandler::error\<close> is not overridden, or at the end of the transport. Then \<open>finished\<close> is
  called.
\<close>

definition with_reader :: "'d reader \<Rightarrow> ('s \<times> 'o list) res \<Rightarrow> (('s \<times> 'd reader) \<times> 'o list) res" where
  "with_reader rd r = and_then r (\<lambda>(s, os). Inr ((s, rd), os))"

fun framed_step ::
    "('e \<Rightarrow> ('s, 'm, 'o) handler) \<Rightarrow> ('e \<Rightarrow> 's \<Rightarrow> ('s \<times> 'o list) res) \<Rightarrow> ('d, 'i) decoder \<Rightarrow>
     ('i \<Rightarrow> 'm) \<Rightarrow> ('s \<times> 'd reader, ('e, 'm) input, 'o) handler" where
  "framed_step h fin dec wrap (s, rd) (Mail e None) = Inl Panic"
| "framed_step h fin dec wrap (s, rd) (Mail e (Some m)) = with_reader rd (h e s m)"
| "framed_step h fin dec wrap (s, rd) (Chunk c) = Inr ((s, map_option (\<lambda>(d, b). (d, b @ c)) rd), [])"
| "framed_step h fin dec wrap (s, None) (Poll eof e) = Inr ((s, None), [])"
| "framed_step h fin dec wrap (s, Some (d, b)) (Poll eof e) =
     (case dec d b of
        (Inl Panic, _) \<Rightarrow> Inl Panic
      | (Inl (Err _), _) \<Rightarrow> with_reader None (fin e s)
      | (Inr None, d', b') \<Rightarrow>
          (if eof then with_reader None (fin e s) else Inr ((s, Some (d', b')), []))
      | (Inr (Some i), d', b') \<Rightarrow> with_reader (Some (d', b')) (h e s (wrap i)))"

definition framed_run ::
    "('e \<Rightarrow> ('s, 'm, 'o) handler) \<Rightarrow> ('e \<Rightarrow> 's \<Rightarrow> ('s \<times> 'o list) res) \<Rightarrow> ('o \<Rightarrow> bool) \<Rightarrow>
     ('d, 'i) decoder \<Rightarrow> ('i \<Rightarrow> 'm) \<Rightarrow> 's \<Rightarrow> 'd reader \<Rightarrow> ('e, 'm) input list \<Rightarrow>
     'o list \<times> outcome \<times> 's \<times> 'd reader" where
  "framed_run h fin stops dec wrap s rd is =
     run_actor (\<lambda>_. framed_step h fin dec wrap) stops (s, rd) (map (Pair ()) is)"

text \<open>
  \<open>FramedWrite::write\<close>: encode each item at once into the writer's buffer; an error is kept for
  the writer's future and leaves the buffer, a panic is the caller's. \<open>buf\<close> is the buffer as the
  transport has left it.
\<close>

fun framed_write :: "('i \<Rightarrow> bytes_mut \<Rightarrow> bytes_mut res) \<Rightarrow> 'i list \<Rightarrow> bytes_mut \<Rightarrow> bytes_mut res" where
  "framed_write enc [] dst = Inr dst"
| "framed_write enc (i # is) dst =
     (case enc i dst of
        Inl Panic \<Rightarrow> Inl Panic
      | Inl (Err _) \<Rightarrow> framed_write enc is dst
      | Inr dst' \<Rightarrow> framed_write enc is dst')"

definition writing ::
    "('i \<Rightarrow> bytes_mut \<Rightarrow> bytes_mut res) \<Rightarrow> ('o list \<Rightarrow> 'i list) \<Rightarrow> bytes_mut \<Rightarrow>
     ('s \<times> 'o list) res \<Rightarrow> ('s \<times> 'o list) res" where
  "writing enc outs buf r =
     and_then r (\<lambda>(s, os). and_then (framed_write enc (outs os) buf) (\<lambda>_. Inr (s, os)))"

text \<open>The outcome of a run without the reader.\<close>

definition forget_reader :: "'o list \<times> outcome \<times> 's \<times> 'd reader \<Rightarrow> 'o list \<times> outcome \<times> 's" where
  "forget_reader r = (fst r, fst (snd r), fst (snd (snd r)))"

lemma forget_reader_simps [simp]:
  "forget_reader (os, oc, s, rd) = (os, oc, s)"
  "forget_reader (case r of (qs, x) \<Rightarrow> (os @ qs, x)) =
     (case forget_reader r of (qs, x) \<Rightarrow> (os @ qs, x))"
  by (simp_all add: forget_reader_def split: prod.splits)

lemma forget_reader_crashes [simp]: "crashes (forget_reader r) \<longleftrightarrow> crashes r"
  by (simp add: forget_reader_def crashes_def)

section \<open>The inbox\<close>

text \<open>
  What the reader makes of the inputs: the messages the handler gets, in order, the end of the
  stream and a panic. \<open>bad\<close> says which buffers make the decoder panic.
\<close>

datatype 'm got = Got 'm | Broken | Ended

fun got_step ::
    "('e \<Rightarrow> ('s, 'm, 'o) handler) \<Rightarrow> ('e \<Rightarrow> 's \<Rightarrow> ('s \<times> 'o list) res) \<Rightarrow> 'e \<Rightarrow> ('s, 'm got, 'o) handler" where
  "got_step h fin e s (Got m) = h e s m"
| "got_step h fin e s Broken = Inl Panic"
| "got_step h fin e s Ended = fin e s"

fun inbox ::
    "('d \<Rightarrow> bytes \<Rightarrow> bool) \<Rightarrow> ('d, 'i) decoder \<Rightarrow> ('i \<Rightarrow> 'm) \<Rightarrow> 'd reader \<Rightarrow> ('e, 'm) input list \<Rightarrow>
     ('e \<times> 'm got) list" where
  "inbox bad dec wrap rd [] = []"
| "inbox bad dec wrap rd (Mail e m # is) =
     (e, case m of None \<Rightarrow> Broken | Some m \<Rightarrow> Got m) # inbox bad dec wrap rd is"
| "inbox bad dec wrap rd (Chunk c # is) = inbox bad dec wrap (map_option (\<lambda>(d, b). (d, b @ c)) rd) is"
| "inbox bad dec wrap None (Poll eof e # is) = inbox bad dec wrap None is"
| "inbox bad dec wrap (Some (d, b)) (Poll eof e # is) =
     (if bad d b then [(e, Broken)]
      else (case dec d b of
              (Inl _, _) \<Rightarrow> (e, Ended) # inbox bad dec wrap None is
            | (Inr None, d', b') \<Rightarrow>
                (if eof then (e, Ended) # inbox bad dec wrap None is
                 else inbox bad dec wrap (Some (d', b')) is)
            | (Inr (Some i), d', b') \<Rightarrow> (e, Got (wrap i)) # inbox bad dec wrap (Some (d', b')) is))"

text \<open>What the calls read from outside, in order.\<close>

fun outsides :: "('e, 'm) input list \<Rightarrow> 'e list" where
  "outsides [] = []"
| "outsides (Mail e m # is) = e # outsides is"
| "outsides (Chunk c # is) = outsides is"
| "outsides (Poll eof e # is) = e # outsides is"

text \<open>The messages of the mailbox among the inputs.\<close>

fun mails :: "('e, 'm) input list \<Rightarrow> 'm list" where
  "mails [] = []"
| "mails (Mail e (Some m) # is) = m # mails is"
| "mails (_ # is) = mails is"

lemma inbox_outsides: "subseq (map fst (inbox bad dec wrap rd is)) (outsides is)"
  by (induction bad dec wrap rd "is" rule: inbox.induct)
    (auto split: prod.splits sum.splits option.splits)

lemma inbox_got: "(e, Got m) \<in> set (inbox bad dec wrap rd is) \<Longrightarrow> m \<in> set (mails is) \<or> m \<in> range wrap"
  by (induction bad dec wrap rd "is" rule: inbox.induct)
    (auto split: prod.splits sum.splits option.splits if_splits)

section \<open>The actor is its handlers on its inbox\<close>

locale panicking_decoder =
  fixes ok :: "'l \<Rightarrow> 'd \<Rightarrow> bool"
    and dec :: "'l \<Rightarrow> ('d, 'i) decoder"
    and bad :: "'l \<Rightarrow> 'd \<Rightarrow> bytes \<Rightarrow> bool"
  assumes panics_iff: "ok L d \<Longrightarrow> (\<exists>d' b'. dec L d b = (Inl Panic, d', b')) \<longleftrightarrow> bad L d b"
    and ok_kept: "ok L d \<Longrightarrow> dec L d b = (x, d', b') \<Longrightarrow> ok L d'"
begin

lemma framed_is_inbox:
  assumes "\<forall>d b. rd = Some (d, b) \<longrightarrow> ok L d"
  shows "forget_reader (framed_run h fin stops (dec L) wrap s rd is) =
    run_actor (got_step h fin) stops s (inbox (bad L) (dec L) wrap rd is)"
  using assms
proof (induction "is" arbitrary: s rd)
  case Nil
  then show ?case by (simp add: framed_run_def)
next
  case (Cons i "is")
  let ?run = "framed_run h fin stops (dec L) wrap"
  let ?step = "framed_step h fin (dec L) wrap (s, rd) i"
  let ?acts = "run_actor (got_step h fin) stops s"
  note simps = framed_run_def run_actor.simps(2)
  have call: "forget_reader (?run s rd (i # is)) = ?acts ((e, g) # inbox (bad L) (dec L) wrap rd' is)"
    if "?step = with_reader rd' (got_step h fin e s g)" and "\<forall>d b. rd' = Some (d, b) \<longrightarrow> ok L d" for e g rd'
    using that Cons.IH [of rd', symmetric]
    by (cases "got_step h fin e s g") (auto simp: simps with_reader_def and_then_def)
  have skip: "forget_reader (?run s rd (i # is)) = ?acts (inbox (bad L) (dec L) wrap rd' is)"
    if "?step = Inr ((s, rd'), [])" and "\<forall>d b. rd' = Some (d, b) \<longrightarrow> ok L d" for rd'
    using that Cons.IH [of rd' s] by (simp add: simps)
  have broken: "forget_reader (?run s rd (i # is)) = ?acts ((e, Broken) # ms)"
    if "?step = Inl Panic" for e ms
    using that by (simp add: simps)
  show ?case
  proof (cases i)
    case (Mail e m)
    with Cons.prems broken call [of rd e "Got (the m)"] show ?thesis by (cases m) auto
  next
    case (Chunk c)
    with Cons.prems skip [of "map_option (\<lambda>(d, b). (d, b @ c)) rd"] show ?thesis by auto
  next
    case (Poll eof e)
    show ?thesis
    proof (cases rd)
      case None
      with Poll skip [of None] show ?thesis by simp
    next
      case (Some r)
      then obtain d b where rd: "rd = Some (d, b)" by (cases r) auto
      with Cons.prems have ok: "ok L d" by simp
      obtain x d' b' where x: "dec L d b = (x, d', b')" by (cases "dec L d b") auto
      note ok' = ok_kept [OF ok x] panics_iff [OF ok, of b]
      show ?thesis
      proof (cases x)
        case (Inl f)
        with x rd Poll ok' broken call [of None e Ended] show ?thesis by (cases f) auto
      next
        case (Inr y)
        with x rd Poll ok' call [of "Some (d', b')" e "Got (wrap (the y))"] call [of None e Ended]
          skip [of "Some (d', b')"] show ?thesis by (cases y) auto
      qed
    qed
  qed
qed

lemma framed_crashes:
  assumes "ok L d"
  shows "crashes (framed_run h fin stops (dec L) wrap s (Some (d, b)) is) \<longleftrightarrow>
    crashes (run_actor (got_step h fin) stops s (inbox (bad L) (dec L) wrap (Some (d, b)) is))"
  using assms by (simp add: framed_is_inbox [symmetric])

end

end
