(* ===== verification/Actor_Crashes.thy ===== *)
theory Actor_Crashes
  imports Framed_Actor Client_Server Proxy_Client Socks_Client Tunnel_Properties Socks_Session Socks_Reply
begin

text \<open>
  When the three actors crash, all of what runs in them included: their handlers, the decoder of
  their framed reader, the encoder of their framed writer and the closure that turns an accepted
  connection into a message. Each actor is \<open>framed_run\<close> over its handlers; the decoders meet
  \<open>panicking_decoder\<close>, so that a crash is judged on the actor's inbox, by a specification that
  lists what may happen there.
\<close>

section \<open>When the decoders panic\<close>

lemma decode_frame_same:
  "proxy_request_decode L c b = (x, c', b') \<Longrightarrow> c' = c"
  "proxy_response_decode L c b = (y, c', b') \<Longrightarrow> c' = c"
  by (auto simp: proxy_request_decode_def proxy_response_decode_def split: prod.splits sum.splits option.splits)


interpretation rqp: panicking_decoder "\<lambda>L c. crates_ok L \<and> codec_ok L c" proxy_request_decode frame_malformed
proof (unfold_locales, goal_cases)
  case (1 L d b)
  with decode_frame_panics [of L d b] show ?case by (simp add: proxy_request_decode_iff)
qed (use decode_frame_same in blast)

text \<open>The SOCKS decoder panics in one state only, on the requests of \<open>target_malformed\<close>.\<close>

definition request_malformed :: "socks5_request_codec_state \<Rightarrow> bytes \<Rightarrow> bool" where
  "request_malformed st b \<longleftrightarrow> st = WORKING \<and> target_malformed b"

lemma decode_methodselection_calm:
  assumes "bytes_ok L"
  shows "decode_methodselection L src \<noteq> (Inl Panic, rest)"
proof (cases "2 \<le> length src")
  case True
  then obtain v n body where src: "src = v # n # body" by (cases src; cases "tl src") auto
  have "unat n \<le> length body" if "\<not> (word_of_nat (length body) :: u8) < n"
    using that mod_less_eq_dividend [of "length body" 256] by (simp add: u8_of_nat_less not_less)
  then show ?thesis by (auto simp: src decode_methodselection_def bytes_okD [OF assms] Let_def)
qed (simp add: decode_methodselection_def)

interpretation scp: panicking_decoder "\<lambda>L _. bytes_ok L \<and> byteorder_ok L" socks5_decode "\<lambda>_. request_malformed"
proof (unfold_locales, goal_cases)
  case (1 L d b)
  have "fst (decode_targetrequest L b) = Inl Panic \<longleftrightarrow> target_malformed b"
    using 1 by (simp add: target_request_panics)
  then show ?case
    using 1 decode_methodselection_calm [of L b]
    by (cases d) (auto simp: socks5_decode_def request_malformed_def decode_data_def split: prod.splits)
qed simp

section \<open>The tunnel's client end\<close>














lemma server_io_quiet [simp]:
  "writing enc outs buf (Inl f) = Inl f"
  "outs os = [] \<Longrightarrow> writing enc outs buf (Inr (s, os)) = Inr (s, os)"
  by (simp_all add: writing_def and_then_def)









section \<open>The server end\<close>

text \<open>
  The actor with the request stream both listeners add to it. The future that writes the responses
  is not part of the actor; that it is gone is \<open>pe_receiver_alive\<close>. The actor runs no closure that can
  panic, so \<open>Mail e None\<close> is no input of it.
\<close>

definition proxy_actor ::
    "('ok, 'sk, 'x) crates_scheme \<Rightarrow> 'w proxy_client \<Rightarrow> ('ok, 'sk) proxy_codec \<Rightarrow>
     ('w proxy_env, 'w proxy_msg) input list \<Rightarrow>
     'w proxy_effect list \<times> outcome \<times> 'w proxy_client \<times> ('ok, 'sk) proxy_codec reader" where
  "proxy_actor L s rd is =
     framed_run proxy_client_handle (\<lambda>env s. proxy_finished s ()) stops_proxy
       (proxy_request_decode L) PCRequest s (Some (rd, [])) is"

definition proxy_inbox ::
    "('ok, 'sk, 'x) crates_scheme \<Rightarrow> ('ok, 'sk) proxy_codec \<Rightarrow> ('w proxy_env, 'w proxy_msg) input list \<Rightarrow>
     ('w proxy_env \<times> 'w proxy_msg got) list" where
  "proxy_inbox L rd is =
     inbox (frame_malformed L) (proxy_request_decode L) PCRequest (Some (rd, [])) is"

text \<open>What makes it crash; \<open>m\<close> are the open connections.\<close>

fun proxy_fails :: "(u16 \<Rightarrow> 'w option) \<Rightarrow> ('w proxy_env \<times> 'w proxy_msg got) list \<Rightarrow> bool" where
  "proxy_fails m [] = False"
| "proxy_fails m ((env, Broken) # h) = True"
| "proxy_fails m ((env, Ended) # h) = False"
| "proxy_fails m ((env, Got msg) # h) =
     (msg \<noteq> PCFinished \<and> (offence env m msg \<or> proxy_fails (live m [(env, msg)]) h))"

lemma proxy_fails_aux:
  "crashes (run_actor (got_step proxy_client_handle (\<lambda>env s. proxy_finished s ())) stops_proxy s ms) \<longleftrightarrow>
   proxy_fails (pcl_connections s) ms"
proof (induction ms arbitrary: s)
  case (Cons x ms)
  obtain env g where x: "x = (env, g)" by (cases x)
  show ?case
  proof (cases g)
    case (Got m)
    show ?thesis
    proof (cases m)
      case (PCRequest q)
      with Cons.IH show ?thesis
        by (cases "prq_request q"; cases "pcl_connections s (prq_uuid q)")
          (auto simp: x Got offence_def handle_request_cases fun_upd_def split: option.splits)
    qed (use Cons.IH in \<open>auto simp: x Got offence_def proxy_handlers fun_upd_def\<close>)
  qed (simp_all add: x proxy_finished_def)
qed (simp add: crashes_def)

text \<open>
  C34: when the server end of a tunnel crashes. Whatever bytes and messages it gets, in any order, the
  whole actor, its reader included, panics exactly when its inbox contains, before the end of its
  request stream, an authenticated frame with a malformed payload or an offence: data for an
  identifier whose connection is not open (never established, dead, or dropped after a failed
  write), a response in place of a request, or a response to send after the tunnel's writer is gone.
\<close>

theorem proxy_client_actor_crash_iff:
  assumes "crates_ok L" and "proxy_codec_new L cfg = Inr rd"
  shows "crashes (proxy_actor L proxy_client_new rd is) \<longleftrightarrow> proxy_fails Map.empty (proxy_inbox L rd is)"
  unfolding proxy_actor_def proxy_inbox_def
  using assms codec_new_is_ok [OF assms] by (simp add: rqp.framed_crashes proxy_fails_aux proxy_client_new_def)

theorem proxy_client_actor_crash_iff_witness:
  "crashes (proxy_actor ref_crates proxy_client_new ref_codec
     [Mail ref_env (Some (PCEstablished 9 3)), Chunk ref_frame, Poll True ref_env, Poll True ref_env]) \<longleftrightarrow>
   proxy_fails Map.empty (proxy_inbox ref_crates ref_codec
     [Mail ref_env (Some (PCEstablished 9 3)), Chunk ref_frame, Poll True ref_env, Poll True ref_env])"
  by (rule proxy_client_actor_crash_iff [OF ref_crates_ok ref_codec_new])

section \<open>A SOCKS connection\<close>

text \<open>
  A call reads the clock, and the writer's buffer as the transport has left it; every reply is
  encoded in the call. This actor runs no closure either, so \<open>Mail e None\<close> is no input of it.
\<close>

record socks_env =
  so_now :: instant
  so_buf :: bytes_mut

definition socks_io ::
    "'x bytes_crate_scheme \<Rightarrow> bool \<Rightarrow> socks_env \<Rightarrow> (socks_client, socks_client_msg, socks_effect) handler" where
  "socks_io L checks env s m =
     writing (socks5_encode L) app_replies (so_buf env) (socks_client_handle checks (so_now env) s m)"

text \<open>\<open>StreamHandler::finished\<close> is not overridden: the end of the application's stream stops the actor.\<close>

definition socks_finished :: "socks_client \<Rightarrow> (socks_client \<times> socks_effect list) res" where
  "socks_finished self = Inr (self, [StopClient])"

definition socks_actor ::
    "'x wire_crates_scheme \<Rightarrow> bool \<Rightarrow> u16 \<Rightarrow> (socks_env, socks_client_msg) input list \<Rightarrow>
     socks_effect list \<times> outcome \<times> socks_client \<times> socks5_request_codec_state reader" where
  "socks_actor L checks uuid is =
     framed_run (socks_io L checks) (\<lambda>env. socks_finished) is_stop (socks5_decode L) FromApp
       (socks_client_new uuid) (Some (socks5_request_codec_new, [])) is"

definition socks_inbox ::
    "'x wire_crates_scheme \<Rightarrow> (socks_env, socks_client_msg) input list \<Rightarrow>
     (socks_env \<times> socks_client_msg got) list" where
  "socks_inbox L is =
     inbox request_malformed (socks5_decode L) FromApp (Some (socks5_request_codec_new, [])) is"

text \<open>
  What makes it crash: a malformed target request, a reply to a connect before any was asked for
  and, with overflow checks, a byte counter that reaches \<open>2 ^ 64\<close>. An abort or the end of the
  stream stops it.
\<close>

fun socks_fails :: "bool \<Rightarrow> bool \<Rightarrow> nat \<Rightarrow> nat \<Rightarrow> socks_client_msg got list \<Rightarrow> bool" where
  "socks_fails checks started sent recv [] = False"
| "socks_fails checks started sent recv (Broken # h) = True"
| "socks_fails checks started sent recv (Ended # h) = False"
| "socks_fails checks started sent recv (Got (FromServer CRAbort) # h) = False"
| "socks_fails checks started sent recv (Got (FromServer CRSucceeded) # h) =
     (\<not> started \<or> socks_fails checks started sent recv h)"
| "socks_fails checks started sent recv (Got (FromServer CRFailed) # h) =
     (\<not> started \<or> socks_fails checks started sent recv h)"
| "socks_fails checks started sent recv (Got (FromServer (CRData d)) # h) =
     (let n = recv + length d mod 2 ^ 64 in
      checks \<and> 2 ^ 64 \<le> n \<or> socks_fails checks started sent n h)"
| "socks_fails checks started sent recv (Got (FromApp (SReqNegotiation g)) # h) =
     socks_fails checks started sent recv h"
| "socks_fails checks started sent recv (Got (FromApp (SReqTarget t)) # h) =
     socks_fails checks True sent recv h"
| "socks_fails checks started sent recv (Got (FromApp (SReqData d)) # h) =
     (let n = sent + length d mod 2 ^ 64 in
      checks \<and> 2 ^ 64 \<le> n \<or> socks_fails checks started n recv h)"

text \<open>No reply the actor writes makes the encoder panic.\<close>

lemma reply_calm:
  assumes "bytes_ok L"
  shows "\<exists>dst'. socks5_encode L (SRespNegotiation m) dst = Inr dst'"
    and "\<exists>dst'. socks5_encode L (SRespTarget succeeded_response) dst = Inr dst'"
    and "\<exists>dst'. socks5_encode L (SRespTarget refused_response) dst = Inr dst'"
    and "\<exists>dst'. socks5_encode L (SRespData d) dst = Inr dst'"
proof -
  note fits = reserve_fits [OF assms] bytes_okD [OF assms]
  show "\<exists>dst'. socks5_encode L (SRespNegotiation m) dst = Inr dst'"
    using reserve_room [OF assms, of dst 2] by (simp add: socks5_encode_def encode_methodselection_def fits)
  show "\<exists>dst'. socks5_encode L (SRespTarget succeeded_response) dst = Inr dst'"
    using encode_targetresponse_ok [OF assms, of succeeded_response dst]
    by (auto simp: socks5_encode_def succeeded_response_def)
  show "\<exists>dst'. socks5_encode L (SRespTarget refused_response) dst = Inr dst'"
    using encode_targetresponse_ok [OF assms, of refused_response dst]
    by (auto simp: socks5_encode_def refused_response_def)
  show "\<exists>dst'. socks5_encode L (SRespData d) dst = Inr dst'"
    by (simp add: socks5_encode_def fits)
qed

lemma socks_io_eq:
  assumes "bytes_ok L"
  shows "socks_io L checks env s m = socks_client_handle checks (so_now env) s m"
proof -
  have "\<exists>dst'. framed_write (socks5_encode L) (app_replies os) (so_buf env) = Inr dst'"
    if "socks_client_handle checks (so_now env) s m = Inr (s', os)" for s' os
  proof -
    note calm = reply_calm [OF assms]
    from that have "app_replies os = [] \<or> (\<exists>r. app_replies os = [r] \<and> (\<exists>dst'. socks5_encode L r (so_buf env) = Inr dst'))"
      using calm by (cases m) (auto simp: socks_client_handlers bind_eq_Some_conv
        split: connector_response.splits socks_request.splits)
    then show ?thesis by auto
  qed
  then show ?thesis
    by (cases "socks_client_handle checks (so_now env) s m") (fastforce simp: socks_io_def writing_def and_then_def)+
qed

lemma add_assign_u64:
  "add_assign checks (a :: u64) (word_of_nat n) =
     (if checks \<and> 2 ^ 64 \<le> unat a + n mod 2 ^ 64 then None else Some (a + word_of_nat n))"
  by (simp add: add_assign_def unat_of_nat)

lemma unat_add_u64:
  "\<not> 2 ^ 64 \<le> unat a + n mod 2 ^ 64 \<Longrightarrow> unat ((a :: u64) + word_of_nat n) = unat a + n mod 2 ^ 64"
  by (simp add: unat_word_ariths unat_of_nat)

text \<open>The state the specification tracks: whether a target was asked for, and the counters.\<close>

definition socks_tracks :: "bool \<Rightarrow> bool \<Rightarrow> nat \<Rightarrow> nat \<Rightarrow> instant list \<Rightarrow> socks_client \<Rightarrow> bool" where
  "socks_tracks checks started sent recv ts s \<longleftrightarrow>
     (started \<longleftrightarrow> sc_connect_request_record s \<noteq> None) \<and> (started \<longrightarrow> sc_target_address s \<noteq> None) \<and>
     (\<forall>start \<in> set_option (sc_connect_request_record s). \<forall>t \<in> set ts. start \<le> t) \<and> sorted ts \<and>
     (checks \<longrightarrow> sent = unat (sc_send_bytes s) \<and> recv = unat (sc_recv_bytes s))"

lemma socks_tracks_step:
  assumes "socks_tracks checks started sent recv (now # ts) s"
  shows "socks_tracks checks started sent recv ts s"
    and "socks_tracks checks started sent recv ts (s\<lparr>sc_connect_rtt := r\<rparr>)"
    and "socks_tracks checks True sent recv ts
      (s\<lparr>sc_connect_request_record := Some now, sc_target_address := Some a\<rparr>)"
    and "\<not> (checks \<and> 2 ^ 64 \<le> recv + n mod 2 ^ 64) \<Longrightarrow>
      socks_tracks checks started sent (recv + n mod 2 ^ 64) ts (s\<lparr>sc_recv_bytes := sc_recv_bytes s + word_of_nat n\<rparr>)"
    and "\<not> (checks \<and> 2 ^ 64 \<le> sent + n mod 2 ^ 64) \<Longrightarrow>
      socks_tracks checks started (sent + n mod 2 ^ 64) recv ts (s\<lparr>sc_send_bytes := sc_send_bytes s + word_of_nat n\<rparr>)"
  using assms by (auto simp: socks_tracks_def unat_add_u64)

lemma socks_fails_aux:
  assumes "bytes_ok L" and "socks_tracks checks started sent recv (map (\<lambda>x. so_now (fst x)) ms) s"
  shows "crashes (run_actor (got_step (socks_io L checks) (\<lambda>env. socks_finished)) is_stop s ms) \<longleftrightarrow>
    socks_fails checks started sent recv (map snd ms)"
  using assms(2)
proof (induction ms arbitrary: s started sent recv)
  case (Cons x ms)
  obtain e g where x: "x = (e, g)" by (cases x)
  with Cons.prems have tr: "socks_tracks checks started sent recv (so_now e # map (\<lambda>x. so_now (fst x)) ms) s"
    by simp
  note IH = socks_tracks_step [OF tr, THEN Cons.IH]
  from tr have st: "started \<longleftrightarrow> sc_connect_request_record s \<noteq> None" "started \<longrightarrow> sc_target_address s \<noteq> None"
    "\<And>start. sc_connect_request_record s = Some start \<Longrightarrow> start \<le> so_now e"
    by (auto simp: socks_tracks_def)
  note io = socks_io_eq [OF assms(1), of checks e s] socks_client_handlers add_assign_u64
  show ?case
  proof (cases g)
    case (Got m)
    consider r where "m = FromServer r" | i where "m = FromApp i" by (cases m)
    then show ?thesis
    proof cases
      case 1
      show ?thesis
      proof (cases r)
        case CRSucceeded
        with st IH(2) show ?thesis by (cases "sc_connect_request_record s") (auto simp: x Got 1 io)
      next
        case CRFailed
        with st IH(2) show ?thesis by (cases "sc_connect_request_record s") (auto simp: x Got 1 io)
      next
        case (CRData d)
        with tr IH(4) [of "length d"] show ?thesis by (auto simp: x Got 1 io socks_tracks_def)
      next
        case CRAbort
        then show ?thesis by (simp add: x Got 1 io)
      qed
    next
      case 2
      show ?thesis
      proof (cases i)
        case (SReqNegotiation q)
        with IH(1) show ?thesis by (simp add: x Got 2 io)
      next
        case (SReqTarget t)
        with IH(3) show ?thesis by (simp add: x Got 2 io)
      next
        case (SReqData d)
        with tr IH(5) [of "length d"] show ?thesis by (auto simp: x Got 2 io socks_tracks_def)
      qed
    qed
  qed (simp_all add: x socks_finished_def)
qed (simp add: crashes_def)

lemma sorted_subseq: "subseq xs ys \<Longrightarrow> sorted ys \<Longrightarrow> sorted (xs :: 'a :: linorder list)"
  by (induction rule: list_emb.induct) (auto dest: list_emb_set)

text \<open>
  C35: when the actor of a SOCKS connection crashes. Whatever bytes the application sends and
  whatever the tunnel answers, in any order, with or without overflow checks and on a clock that does
  not go backwards, the whole actor (handlers, request reader and reply writer) panics exactly when,
  before an abort or the end of the application's stream, its reader meets a malformed target
  request, a connect is answered that was never asked for, or, with overflow checks, a byte counter
  overflows.
\<close>

theorem socks_client_actor_crash_iff:
  assumes "bytes_ok L" and "byteorder_ok L" and "sorted (map so_now (outsides is))"
  shows "crashes (socks_actor L checks uuid is) \<longleftrightarrow> socks_fails checks False 0 0 (map snd (socks_inbox L is))"
proof -
  have "subseq (map fst (socks_inbox L is)) (outsides is)" unfolding socks_inbox_def by (rule inbox_outsides)
  from subseq_map [OF this, of so_now] assms(3) have "sorted (map (\<lambda>x. so_now (fst x)) (socks_inbox L is))"
    by (auto simp: o_def dest: sorted_subseq)
  then have "socks_tracks checks False 0 0 (map (\<lambda>x. so_now (fst x)) (socks_inbox L is)) (socks_client_new uuid)"
    by (simp add: socks_tracks_def socks_client_new_def)
  from socks_fails_aux [OF assms(1) this] show ?thesis
    unfolding socks_actor_def socks_inbox_def using assms(1,2) by (simp add: scp.framed_crashes)
qed

definition ref_socks_inputs :: "(socks_env, socks_client_msg) input list" where
  "ref_socks_inputs = [Chunk [5, 1, 0], Poll False \<lparr>so_now = 3, so_buf = empty_buf\<rparr>,
     Chunk [5, 9, 0, 1, 127, 0, 0, 1, 0, 80], Poll False \<lparr>so_now = 4, so_buf = empty_buf\<rparr>]"

theorem socks_client_actor_crash_iff_witness:
  "crashes (socks_actor ref_crates True 9 ref_socks_inputs) \<longleftrightarrow>
   socks_fails True False 0 0 (map snd (socks_inbox ref_crates ref_socks_inputs))"
  by (rule socks_client_actor_crash_iff [OF ref_bytes_ok ref_byteorder_ok]) (simp add: ref_socks_inputs_def)

end
