(* ===== verification/System_Typing.thy ===== *)
theory System_Typing
  imports Message_Types
begin

text \<open>
  Where the messages of the whole system come from. Every request under way and every response
  sent is typed and has a cause: an item its application gave, a timer tick, a piece read, a read
  error or the end of a connect, under the identifier of a connection that was made. What the
  applications give is what the SOCKS codec decodes from their bytes.
\<close>

section \<open>Items decoded from bytes\<close>

text \<open>The items an application's codec gave, and the reads they came from.\<close>

fun app_items :: "addr \<Rightarrow> 'w sys_event list \<Rightarrow> socks_request list" where
  "app_items a [] = []"
| "app_items a (AppItem b now i # es) = (if a = b then i # app_items a es else app_items a es)"
| "app_items a (_ # es) = app_items a es"

text \<open>No read buffer holds 4 GiB.\<close>

fun buffers_below :: "nat \<Rightarrow> ('s, 'i) decoder \<Rightarrow> 's \<Rightarrow> bytes \<Rightarrow> bytes list \<Rightarrow> bool" where
  "buffers_below n dec s b [] = True"
| "buffers_below n dec s b (c # cs) =
     (length (b @ c) < n \<and> (case drain dec s (b @ c) of
        (xs, Some e, s', b') \<Rightarrow> True
      | (xs, None, s', b') \<Rightarrow> buffers_below n dec s' b' cs))"

definition items_decoded :: "'x wire_crates_scheme \<Rightarrow> 'w sys_event list \<Rightarrow> bool" where
  "items_decoded L es \<longleftrightarrow> (\<forall>a. \<exists>cs. buffers_below (2 ^ 32) (socks5_decode L) socks5_request_codec_new [] cs \<and>
     prefix (app_items a es) (fst (feed (socks5_decode L) socks5_request_codec_new [] cs)))"

lemma app_items_set: "AppItem a now i \<in> set es \<Longrightarrow> i \<in> set (app_items a es)"
  by (induction a es rule: app_items.induct) auto

lemma feed_fits:
  assumes "bytes_ok L \<and> byteorder_ok L"
  shows "buffers_below (2 ^ 32) (socks5_decode L) st b cs \<Longrightarrow>
    \<forall>i \<in> set (fst (feed (socks5_decode L) st b cs)). item_fits i"
proof (induction cs arbitrary: st b)
  case (Cons c cs)
  obtain xs e st' b' where d: "drain (socks5_decode L) st (b @ c) = (xs, e, st', b')"
    by (cases "drain (socks5_decode L) st (b @ c)") auto
  from Cons.prems d have "\<forall>i \<in> set xs. item_fits i" by (intro drain_fits [OF assms d]) simp
  with Cons.IH [of st' b'] Cons.prems d show ?case
    by (cases e) (auto split: prod.splits)
qed simp

text \<open>In particular when all of a connection's bytes are below that.\<close>

lemma buffers_below_total:
  assumes "bytes_ok L \<and> byteorder_ok L"
  shows "length b + length (concat cs) < n \<Longrightarrow> buffers_below n (socks5_decode L) st b cs"
proof (induction cs arbitrary: st b)
  case (Cons c cs)
  obtain xs e st' b' where d: "drain (socks5_decode L) st (b @ c) = (xs, e, st', b')"
    by (cases "drain (socks5_decode L) st (b @ c)") auto
  show ?case
  proof (cases e)
    case None
    with d sd.drain_stops [OF assms, of st "b @ c" xs st' b'] have "length b' \<le> length b + length c" by auto
    with Cons.IH [of b' st'] Cons.prems d None show ?thesis by simp
  qed (use Cons.prems d in simp)
qed simp

lemma decoded_items_fit:
  assumes "bytes_ok L \<and> byteorder_ok L" and "items_decoded L es"
  shows "items_fit es"
  unfolding items_fit_def
proof (intro allI impI)
  fix a now i assume "AppItem a now i \<in> set es"
  from app_items_set [OF this] assms(2) feed_fits [OF assms(1)] show "item_fits i"
    unfolding items_decoded_def by (metis set_mono_prefix subsetD)
qed

section \<open>Causes\<close>

text \<open>What \<open>to_addressstring\<close> is to give: the host, a colon and the port as a signed number.\<close>

definition target_text :: "target_request \<Rightarrow> rstring" where
  "target_text t =
     (case tq_address t of DOMAIN s \<Rightarrow> s | IPV6 i \<Rightarrow> display_ipv6 i | IPV4 i \<Rightarrow> display_ipv4 i) @ rstr '':'' @
     (if unat (tq_port t) < 32768 then dec_digits (unat (tq_port t))
      else rstr ''-'' @ dec_digits (65536 - unat (tq_port t)))"

lemma to_addressstring_text: "to_addressstring t = target_text t"
  by (simp add: to_addressstring_def target_text_def display_i16_negative display_i16_nonneg rstr_def)

definition connected :: "'w sys_event set \<Rightarrow> u16 \<Rightarrow> bool" where
  "connected E u \<longleftrightarrow> (\<exists>a. AppConnects u a \<in> E)"

text \<open>An item given by the application of a connection.\<close>

definition given :: "'w sys_event set \<Rightarrow> u16 \<Rightarrow> socks_request \<Rightarrow> bool" where
  "given E u i \<longleftrightarrow> (\<exists>a now. AppConnects u a \<in> E \<and> AppItem a now i \<in> E)"

fun request_cause :: "'w sys_event set \<Rightarrow> u16 \<Rightarrow> proxy_transfer \<Rightarrow> bool" where
  "request_cause E u (PTData d) \<longleftrightarrow> given E u (SReqData d)"
| "request_cause E u (PTRequestAddr s) \<longleftrightarrow> (\<exists>t. given E u (SReqTarget t) \<and> s = target_text t)"
| "request_cause E u (PTHeartbeat i) \<longleftrightarrow> u = 0"
| "request_cause E u (PTResponse r) \<longleftrightarrow> False"

fun reply_cause :: "'w sys_event set \<Rightarrow> u16 \<Rightarrow> proxy_response_type \<Rightarrow> bool" where
  "reply_cause E u RTSucceeded \<longleftrightarrow> (\<exists>w. NodeStep (NResolved u (ConnectedTo w)) \<in> E)"
| "reply_cause E u RTTimeout \<longleftrightarrow> NodeStep (NResolved u ResolverTimeout) \<in> E"
| "reply_cause E u RTConnectionRefused \<longleftrightarrow>
     NodeStep (NResolved u ResolverError) \<in> E \<or> NodeStep (NResolved u MailboxFailed) \<in> E"
| "reply_cause E u RTAbort \<longleftrightarrow> NodeStep (NRead u ReadError) \<in> E"

fun response_cause :: "'w sys_event set \<Rightarrow> u16 \<Rightarrow> proxy_transfer \<Rightarrow> bool" where
  "response_cause E u (PTData d) \<longleftrightarrow> connected E u \<and> NodeStep (NRead u (ReadData d)) \<in> E"
| "response_cause E u (PTResponse r) \<longleftrightarrow> connected E u \<and> reply_cause E u r"
| "response_cause E u (PTHeartbeat i) \<longleftrightarrow> u = 0"
| "response_cause E u (PTRequestAddr s) \<longleftrightarrow> False"

lemma cause_mono:
  assumes "E \<subseteq> F"
  shows "connected E u \<Longrightarrow> connected F u"
    and "given E u i \<Longrightarrow> given F u i"
    and "request_cause E u t \<Longrightarrow> request_cause F u t"
    and "response_cause E u t \<Longrightarrow> response_cause F u t"
proof -
  show c: "connected E u \<Longrightarrow> connected F u" using assms by (auto simp: connected_def)
  show g: "given E u i \<Longrightarrow> given F u i" for i using assms by (auto simp: given_def)
  show "request_cause E u t \<Longrightarrow> request_cause F u t" using g by (cases t) auto
  have "reply_cause E u r \<Longrightarrow> reply_cause F u r" for r using assms by (cases r) auto
  with c assms show "response_cause E u t \<Longrightarrow> response_cause F u t" by (cases t) auto
qed

section \<open>The invariant\<close>

definition node_caused :: "'w sys_event set \<Rightarrow> 'w node \<Rightarrow> bool" where
  "node_caused E n \<longleftrightarrow>
     (\<forall>r \<in> set (nd_sent n @ pending n). response_cause E (prs_uuid r) (prs_response r)) \<and>
     (\<forall>u \<in> set (nd_resolving n) \<union> set (nd_readers n). connected E u) \<and>
     (\<forall>m \<in> set (nd_mailbox n). \<forall>q. m \<noteq> PCRequest q)"

definition caused :: "'w sys_event set \<Rightarrow> 'w system \<Rightarrow> bool" where
  "caused E s \<longleftrightarrow>
     (\<forall>a c. sy_socks s a = Some c \<longrightarrow> AppConnects (sc_uuid c) a \<in> E) \<and>
     (\<forall>q \<in> set (sy_up s @ sy_sent s @ box_requests (sy_server_box s)). request_cause E (prq_uuid q) (prq_request q)) \<and>
     node_caused E (sy_node s)"

lemma caused_mono: "E \<subseteq> F \<Longrightarrow> caused E s \<Longrightarrow> caused F s"
  unfolding caused_def node_caused_def by (meson cause_mono subsetD)

lemma replies_cause:
  "(\<forall>q. m \<noteq> PCRequest q) \<Longrightarrow> connects m = []"
  by (cases m) auto

lemma node_caused_posts:
  assumes "node_caused E n" and "connected E u" and "nd_sent n' = nd_sent n" and "nd_mailbox n' = nd_mailbox n @ ms"
    and "set (nd_resolving n') \<subseteq> set (nd_resolving n)" and "set (nd_readers n') \<subseteq> insert u (set (nd_readers n))"
    and "\<forall>m \<in> set ms. (\<forall>q. m \<noteq> PCRequest q) \<and> (\<forall>r \<in> set (replies m). response_cause E (prs_uuid r) (prs_response r))"
  shows "node_caused E n'"
proof -
  have "set (nd_sent n' @ pending n') = set (nd_sent n @ pending n) \<union> (\<Union>m \<in> set ms. set (replies m))"
    by (auto simp: pending_def assms(3,4))
  moreover have "connected E v" if "v \<in> set (nd_resolving n') \<union> set (nd_readers n')" for v
    using that assms(1,2,5,6) by (auto simp: node_caused_def)
  ultimately show ?thesis using assms(1,7) unfolding node_caused_def by (auto simp: assms(4))
qed

lemma node_caused_step:
  assumes "node_caused E n" and "node_next n e = Some n'"
    and "\<forall>env q. e = NRequest env q \<longrightarrow> request_cause E (prq_uuid q) (prq_request q)"
    and "(\<forall>env q. e \<noteq> NRequest env q) \<longrightarrow> NodeStep e \<in> E"
  shows "node_caused E n'"
proof (cases e)
  case (NRequest env q)
  with assms(2) node_call_Some [of env "PCRequest q" n n'] have
    n': "nd_sent n' = nd_sent n @ replies (PCRequest q)" "nd_resolving n' = nd_resolving n @ map fst (connects (PCRequest q))"
      "nd_mailbox n' = nd_mailbox n" "nd_readers n' = nd_readers n" by simp_all
  from assms(3) NRequest have "request_cause E (prq_uuid q) (prq_request q)" by simp
  with n' assms(1) show ?thesis
    by (cases "prq_request q") (auto simp: node_caused_def pending_def given_def connected_def)
next
  case (NMailbox env)
  with assms(2) obtain m ms where m: "nd_mailbox n = m # ms" "node_call env m (n\<lparr>nd_mailbox := ms\<rparr>) = Some n'"
    by (auto split: list.splits)
  from m(1) assms(1) have "connects m = []" by (intro replies_cause) (auto simp: node_caused_def)
  with node_call_Some [OF m(2)] m(1) assms(1) show ?thesis by (auto simp: node_caused_def pending_def)
next
  case (NResolved u result)
  with assms(1,2) have u: "connected E u" by (auto simp: node_caused_def split: if_splits)
  obtain ms rd where r: "resolver_done u result = (ms, rd)" by (cases "resolver_done u result")
  with NResolved assms(2) have n': "n' = n\<lparr>nd_mailbox := nd_mailbox n @ ms,
      nd_resolving := remove1 u (nd_resolving n), nd_readers := (if rd then nd_readers n @ [u] else nd_readers n)\<rparr>"
    by (auto split: if_splits)
  have cause: "NodeStep (NResolved u result) \<in> E" using assms(4) NResolved by simp
  then have "\<forall>m \<in> set ms. (\<forall>q. m \<noteq> PCRequest q) \<and> (\<forall>r \<in> set (replies m). response_cause E (prs_uuid r) (prs_response r))"
    using r u by (cases result) (auto simp: resolver_done_def)
  then show ?thesis
    by (intro node_caused_posts [OF assms(1) u, of _ ms]) (auto simp: n' dest: notin_set_remove1 set_remove1_subset [THEN subsetD])
next
  case (NRead u ev)
  with assms(1,2) have u: "connected E u" by (auto simp: node_caused_def split: if_splits)
  from NRead assms(2) obtain ms go where r: "reader_step u ev = (ms, go)"
    and n': "n' = n\<lparr>nd_mailbox := nd_mailbox n @ ms,
      nd_readers := (if go then nd_readers n else remove1 u (nd_readers n))\<rparr>"
    by (auto split: if_splits prod.splits)
  have cause: "NodeStep (NRead u ev) \<in> E" using assms(4) NRead by simp
  then have "\<forall>m \<in> set ms. (\<forall>q. m \<noteq> PCRequest q) \<and> (\<forall>r \<in> set (replies m). response_cause E (prs_uuid r) (prs_response r))"
    using r u by (cases ev) (auto simp: reader_step_def)
  then show ?thesis
    by (intro node_caused_posts [OF assms(1) u, of _ ms]) (auto simp: n' dest: set_remove1_subset [THEN subsetD])
next
  case (NFinished env)
  with assms(2) node_call_Some [of env PCFinished n n'] assms(1) show ?thesis
    by (auto simp: node_caused_def pending_def)
qed

lemma caused_socks:
  assumes "caused E s" and "socks_call checks a now m (s\<lparr>sy_socks_box := b\<rparr>) = Some s'"
    and "\<forall>i. m = FromApp i \<longrightarrow> AppItem a now i \<in> E"
  shows "caused E s'"
proof (rule socks_call_parts [OF assms(2)])
  fix c c' :: socks_client and X
  let ?t = "s\<lparr>sy_socks_box := b\<rparr>" and ?qs = "socks_requests (relay (sc_uuid c) m)"
  assume c: "sy_socks ?t a = Some c" "sc_uuid c' = sc_uuid c"
    and s': "s' = s\<lparr>sy_socks_box := b, sy_socks := (sy_socks ?t)(a \<mapsto> c'), sy_stopped := X,
      sy_server_box := sy_server_box ?t @ map SVRequest ?qs, sy_sent := sy_sent ?t @ ?qs,
      sy_app := (sy_app ?t)(a := sy_app ?t a @ app_replies (relay (sc_uuid c) m))\<rparr>"
  from assms(1) c(1) have con: "AppConnects (sc_uuid c) a \<in> E" by (simp add: caused_def)
  have "\<forall>q \<in> set ?qs. request_cause E (prq_uuid q) (prq_request q)"
  proof (cases m)
    case (FromServer r)
    then show ?thesis by (simp add: relay_requests)
  next
    case (FromApp i)
    with assms(3) con have "given E (sc_uuid c) i" by (auto simp: given_def)
    with FromApp show ?thesis by (cases i) (auto simp: to_addressstring_text)
  qed
  with assms(1) con c show ?thesis by (auto simp: caused_def s')
qed

lemma server_requests_cause:
  assumes "server_handle checks clock v m = Inr (v', os)"
    and "\<forall>q. m = SVRequest q \<longrightarrow> request_cause E (prq_uuid q) (prq_request q)"
  shows "\<forall>q \<in> set (requests_of os). request_cause E (prq_uuid q) (prq_request q)"
proof (cases m)
  case SVHeartbeat
  with assms show ?thesis
    by (auto simp: server_handle.simps server_handle_heartbeat_def Let_def bind_eq_Some_conv)
next
  case (SVRequest q)
  with assms show ?thesis by (auto simp: server_handle.simps server_handle_request_def)
next
  case (SVResponse r)
  with server_call_response_quiet [of checks clock v r v' os] assms show ?thesis by simp
next
  case SVTick
  with server_call_tick [of checks clock v v' os] assms show ?thesis by simp
qed (use assms in \<open>auto simp: server_handle.simps server_handle_connected_def server_finished_def\<close>)

lemma caused_server:
  assumes "caused E s" and "server_call checks clock m (s\<lparr>sy_taken := k, sy_server_box := ms\<rparr>) = Some s'"
    and "set ms \<subseteq> set (sy_server_box s)"
    and "\<forall>q. m = SVRequest q \<longrightarrow> request_cause E (prq_uuid q) (prq_request q)"
  shows "caused E s'"
proof (rule server_call_parts [OF assms(2)])
  fix v os X
  let ?t = "s\<lparr>sy_taken := k, sy_server_box := ms\<rparr>"
  assume "server_handle checks clock (sy_server ?t) m = Inr (v, os)"
  from server_requests_cause [OF this assms(4)]
  have "\<forall>q \<in> set (requests_of os). request_cause E (prq_uuid q) (prq_request q)" .
  moreover have "set (box_requests ms) \<subseteq> set (box_requests (sy_server_box s))"
    using assms(3) by (auto simp: box_requests_set)
  moreover assume "s' = s\<lparr>sy_taken := k, sy_server_box := ms, sy_server := v,
      sy_server_box := sy_server_box ?t @ heartbeats_of os, sy_up := sy_up ?t @ requests_of os,
      sy_socks_box := post_sends (sends_of os) (sy_socks_box ?t), sy_closed := X\<rparr>"
  ultimately show ?thesis using assms(1) by (auto simp: caused_def)
qed

lemma caused_step:
  assumes "caused E s" and "sys_next checks s e = Some s'" and "e \<in> E"
  shows "caused E s'"
proof -
  have quiet: "caused E z" if "server_call checks clock m s = Some z" "\<forall>q. m \<noteq> SVRequest q" for clock m z
    using caused_server [OF assms(1), where k = "sy_taken s" and ms = "sy_server_box s" and m = m and s' = z] that
    by simp
  show ?thesis
  proof (cases e)
    case (AppConnects u a)
    with assms(2) obtain z where "server_call checks (\<lambda>_. 0) (SVConnected u a) s = Some z"
      and s': "s' = z\<lparr>sy_socks := (sy_socks z)(a \<mapsto> socks_client_new u)\<rparr>" by (auto split: if_splits)
    with quiet have "caused E z" by blast
    then show ?thesis using assms(3) AppConnects by (simp add: caused_def s' socks_client_new_def)
  next
    case (AppItem a now i)
    with assms(2,3) caused_socks [OF assms(1), where b = "sy_socks_box s" and m = "FromApp i"]
    show ?thesis by auto
  next
    case (SocksMailbox a now)
    with assms(2) obtain r b where
      c: "socks_call checks a now (FromServer r) (s\<lparr>sy_socks_box := b\<rparr>) = Some s'" by (auto split: list.splits)
    from caused_socks [OF assms(1) c] show ?thesis by simp
  next
    case (TimerTick clock)
    with assms(2) quiet show ?thesis by auto
  next
    case (ServerMailbox clock)
    with assms(2) obtain m ms where m: "sy_server_box s = m # ms"
      and c: "server_call checks clock m (s\<lparr>sy_server_box := ms\<rparr>) = Some s'" by (auto split: list.splits)
    have "\<forall>q. m = SVRequest q \<longrightarrow> request_cause E (prq_uuid q) (prq_request q)"
      using assms(1) m by (auto simp: caused_def)
    with caused_server [OF assms(1), where k = "sy_taken s" and ms = ms and m = m and s' = s'] c m
    show ?thesis by auto
  next
    case (ResponseArrives clock)
    with assms(2) obtain r where
      "server_call checks clock (SVResponse r) (s\<lparr>sy_taken := Suc (sy_taken s)\<rparr>) = Some s'"
      by (auto split: if_splits)
    with caused_server [OF assms(1), where k = "Suc (sy_taken s)" and ms = "sy_server_box s" and m = "SVResponse r" and s' = s']
    show ?thesis by simp
  next
    case (RequestArrives env)
    with assms(2) obtain q qs n where up: "sy_up s = q # qs" and n: "node_next (sy_node s) (NRequest env q) = Some n"
      and s': "s' = s\<lparr>sy_node := n, sy_up := qs, sy_got := sy_got s @ [q]\<rparr>"
      by (auto simp del: node_next.simps split: list.splits)
    have "node_caused E (sy_node s)" "request_cause E (prq_uuid q) (prq_request q)"
      using assms(1) up by (simp_all add: caused_def)
    with node_caused_step [OF _ n] have "node_caused E n" by auto
    with assms(1) up show ?thesis by (auto simp: caused_def s')
  next
    case (NodeStep f)
    with assms(2) obtain n where n: "node_next (sy_node s) f = Some n" and s': "s' = s\<lparr>sy_node := n\<rparr>"
      and f: "\<forall>env q. f \<noteq> NRequest env q"
      by (auto simp del: node_next.simps split: node_event.splits)
    have "node_caused E (sy_node s)" using assms(1) by (simp add: caused_def)
    with node_caused_step [OF _ n] f assms(3) NodeStep have "node_caused E n" by auto
    with assms(1) show ?thesis by (simp add: caused_def s')
  next
    case TunnelCloses
    with assms(2) quiet show ?thesis by auto
  next
    case (AppCloses a)
    with assms(1,2) show ?thesis by (auto simp: caused_def split: option.splits)
  qed
qed

lemma caused_run: "sys_run checks v es s \<Longrightarrow> caused (set es) s"
proof (induction rule: sys_run.induct)
  case start
  show ?case by (simp add: caused_def node_caused_def pending_def sys_new_def node_new_def)
next
  case (step es s e s')
  show ?case
    by (rule caused_step [OF caused_mono [OF _ step.IH] step.hyps(2)]) auto
qed

section \<open>Properties\<close>

text \<open>
  What a well-formed request and response are, spelled out: the length and the type byte's tag fit
  the payload, and the payload has a cause among the events.
\<close>

fun tagged :: "proxy_transfer \<Rightarrow> proxy_transfer_type \<Rightarrow> nat \<Rightarrow> bool" where
  "tagged (PTData d) tt n \<longleftrightarrow> tt = TTData \<and> n = length d \<and> n < 2 ^ 32"
| "tagged (PTRequestAddr s) tt n \<longleftrightarrow> tt = TTRequestAddr \<and> n = length s \<and> n < 2 ^ 32 \<and> valid_utf8 s"
| "tagged (PTResponse r) tt n \<longleftrightarrow> tt = TTResponse \<and> n = 1"
| "tagged (PTHeartbeat i) tt n \<longleftrightarrow> tt = TTHeartbeat \<and> n = 4"

definition request_typed :: "'w sys_event list \<Rightarrow> proxy_request \<Rightarrow> bool" where
  "request_typed es q \<longleftrightarrow> tagged (prq_request q) (prq_transfer_type q) (prq_transfer_len q) \<and>
     request_cause (set es) (prq_uuid q) (prq_request q)"

definition response_typed :: "'w sys_event list \<Rightarrow> proxy_response \<Rightarrow> bool" where
  "response_typed es r \<longleftrightarrow> tagged (prs_response r) (prs_transfer_type r) (prs_transfer_len r) \<and>
     response_cause (set es) (prs_uuid r) (prs_response r)"

lemma new_tagged: "transfer_fits t \<Longrightarrow> tagged t (snd (transfer_header t)) (length (payload_bytes t))"
  by (cases t) (simp_all add: transfer_fits_def)

text \<open>
  C14: every message of the whole system is well typed and has a cause. Let the applications' items be
  what the SOCKS codec decodes from bytes, and no read, of an application or of a target, hold 4 GiB.
  In every interleaving each request under way carries the tag and the length of its payload and is
  data or a target (its UTF-8 text is the host, a colon and the port) that the application connected
  under its identifier gave, or a heartbeat under identifier 0, and never a response; each response
  sent is data read from, or the fate of, the connection of an identifier that was given out, or a
  heartbeat under identifier 0, and never an address.
\<close>

theorem system_messages_typed:
  assumes "bytes_ok L" and "byteorder_ok L" and "sys_run checks v es s"
    and "items_decoded L es" and "reads_fit es"
  shows "list_all (request_typed es) (sy_up s) \<and> list_all (response_typed es) (nd_sent (sy_node s))"
proof -
  from decoded_items_fit [OF _ assms(4)] assms(1,2) have "items_fit es" by simp
  note fits = typed_run [OF assms(3) this assms(5)]
  note causes = caused_run [OF assms(3)]
  have "request_typed es q" if "q \<in> set (sy_up s)" for q
  proof -
    from that fits have "request_fits q" by (simp add: typed_def requests_typed_def)
    then obtain u t where "q = proxy_request_new u t" "transfer_fits t" unfolding request_fits_def by blast
    moreover have "request_cause (set es) (prq_uuid q) (prq_request q)" using that causes by (simp add: caused_def)
    ultimately show ?thesis by (simp add: request_typed_def new_tagged)
  qed
  moreover have "response_typed es r" if "r \<in> set (nd_sent (sy_node s))" for r
  proof -
    from that fits have "response_fits r" by (simp add: typed_def node_typed_def)
    then obtain u t where "r = proxy_response_new u t" "transfer_fits t" unfolding response_fits_def by blast
    moreover have "response_cause (set es) (prs_uuid r) (prs_response r)"
      using that causes by (simp add: caused_def node_caused_def)
    ultimately show ?thesis by (simp add: response_typed_def new_tagged)
  qed
  ultimately show ?thesis by (simp add: list_all_iff)
qed

text \<open>The run of the witness: its first application's items, decoded from three reads.\<close>

definition ref_reads :: "bytes list" where
  "ref_reads = [[5, 1, 0], [5, 1, 0, 3, 1, 97, 0, 80], [1, 2]]"

definition ref_item_events :: "nat sys_event list" where
  "ref_item_events =
     [AppConnects 9 0, AppItem 0 0 (SReqNegotiation (parsed_greeting 5 [0])),
      AppItem 0 0 (SReqTarget (parsed_target CONNECT (DOMAIN [97]) 80)), ServerMailbox id,
      RequestArrives ref_env, NodeStep (NResolved 9 (ConnectedTo 3)), NodeStep (NMailbox ref_env),
      ResponseArrives id, SocksMailbox 0 1, AppItem 0 2 (SReqData [1, 2]), ServerMailbox id]"

lemma ref_items_run: "\<exists>s. sys_run False ref_server ref_item_events s \<and>
    sy_up s = [proxy_request_new 9 (PTData [1, 2])] \<and>
    nd_sent (sy_node s) = [proxy_response_new 9 (PTResponse RTSucceeded)]"
proof -
  have "\<exists>s. sys_exec False (sys_new ref_server) ref_item_events = Some s \<and>
      sy_up s = [proxy_request_new 9 (PTData [1, 2])] \<and>
      nd_sent (sy_node s) = [proxy_response_new 9 (PTResponse RTSucceeded)]"
    by (simp add: ref_item_events_def system_eval)
  then show ?thesis using sys_run_start by blast
qed

lemma ref_items_decoded: "items_decoded ref_crates ref_item_events"
  unfolding items_decoded_def
proof
  fix a
  show "\<exists>cs. buffers_below (2 ^ 32) (socks5_decode ref_crates) socks5_request_codec_new [] cs \<and>
      prefix (app_items a ref_item_events) (fst (feed (socks5_decode ref_crates) socks5_request_codec_new [] cs))"
  proof (cases "a = 0")
    case True
    have "buffers_below (2 ^ 32) (socks5_decode ref_crates) socks5_request_codec_new [] ref_reads"
      by (rule buffers_below_total) (simp_all add: ref_bytes_ok ref_byteorder_ok ref_reads_def)
    moreover have "fst (feed (socks5_decode ref_crates) socks5_request_codec_new [] ref_reads) =
        app_items 0 ref_item_events" by code_simp
    ultimately show ?thesis using True by (metis prefix_order.order_refl)
  next
    case False
    then show ?thesis by (intro exI [of _ "[]"]) (simp add: ref_item_events_def)
  qed
qed

theorem system_messages_typed_witness:
  "\<exists>s :: nat system. sy_up s = [proxy_request_new 9 (PTData [1, 2])] \<and>
    list_all (request_typed ref_item_events) (sy_up s) \<and> list_all (response_typed ref_item_events) (nd_sent (sy_node s))"
proof -
  from ref_items_run obtain s where "sys_run False ref_server ref_item_events s"
    "sy_up s = [proxy_request_new 9 (PTData [1, 2])]" by blast
  moreover have "reads_fit ref_item_events" by (simp add: reads_fit_def ref_item_events_def)
  ultimately show ?thesis
    using system_messages_typed [OF ref_bytes_ok ref_byteorder_ok _ ref_items_decoded] by blast
qed

end
