(* ===== verification/Spec2Isabelle.thy ===== *)
theory Spec2Isabelle
  imports Crates_Ref Socks_Session Socks_Reply Tunnel_Properties Socks_Client Client_Server Proxy_Node
    Launch End_To_End First_Stream Cli_Config Node_Writes Tunnel_Delivery Byte_Channel Message_Types
    Connectors Certificates Main_Program Actor_Crashes System_Typing
begin

text \<open>
  A verification development of just-proxy, a SOCKS5 proxy over an encrypted tunnel.

  \<^bold>\<open>The program.\<close> An application speaks SOCKS5 to the client. For each of its connections the
  client starts an actor \<open>SocksClient\<close>, which turns SOCKS requests into tunnel requests under the
  application's port as identifier and hands them to the one actor \<open>Server\<close>, which owns the
  connection to the proxy server (TCP, or a QUIC stream), writes the requests there, routes the
  responses back by identifier and sends heartbeats. At the server end each tunnel has an actor
  \<open>ProxyClient\<close>, which asks a resolver to connect, writes data to the targets and sends back what
  its readers read. Every message crosses the tunnel as a frame of a sealed header and a sealed
  payload.

  \<^bold>\<open>Foundations.\<close> \<open>Prelude\<close>: results with an error or a panic, big-endian bytes, generic lemmas.
  \<open>Rust_Std\<close>: UTF-8 and the rendering of numbers and addresses by the standard library.
  \<open>Crates\<close>: the crates \<open>bytes\<close>, \<open>byteorder\<close> and \<open>ring\<close>, which are not in the repository, as
  records of functions with their documented laws (\<open>bytes_ok\<close>, \<open>byteorder_ok\<close>, \<open>ring_ok\<close>);
  \<open>Crates_Ref\<close>: an instance that meets the laws, on which the witnesses evaluate. \<open>Framing\<close>: the
  contract between a decoder and the framed reader (locales \<open>byte_decoder\<close>, \<open>prefix_decoder\<close>,
  \<open>framed_codec\<close>). \<open>Actor\<close>: the contract between an actor and its framework (locale \<open>actor\<close>).

  \<^bold>\<open>SOCKS5\<close> (\<open>socks/message.rs\<close>, \<open>socks/codec.rs\<close>). \<open>Socks_Message\<close>, \<open>Socks_Codec\<close>: the messages,
  the three-state request decoder and the response encoder. \<open>Socks_Codec_Correct\<close>,
  \<open>Socks_Session\<close>, \<open>Socks_Reply\<close>: the target request parser against the wire format in both
  directions, its panics, a whole session in any chunks, the order of the items, the replies.

  \<^bold>\<open>Tunnel codec\<close> (\<open>message.rs\<close>, \<open>opt.rs\<close>). \<open>Crypto_Opt\<close>: resolving the configuration.
  \<open>Proxy_Message\<close>, \<open>Proxy_Codec\<close>: messages, both codecs. \<open>Proxy_Codec_Correct\<close>,
  \<open>Proxy_Roundtrip\<close>, \<open>Tunnel_Properties\<close>: decoding inverts encoding, nothing but encodings is
  accepted, chunks do not matter, when the decoder panics. \<open>Byte_Channel\<close>: a direction of the
  tunnel, with writes and partial arrivals interleaved in any way, refines a queue of messages;
  the loops of all readers end.

  \<^bold>\<open>Actors.\<close> \<open>Socks_Client\<close> (\<open>socks.rs\<close>), \<open>Client_Server\<close> (\<open>component/client.rs\<close>),
  \<open>Proxy_Client\<close> (\<open>component/server.rs\<close>): state, handlers and effects of each actor, a functional
  specification of any history of calls (a relay, a multiplexer, a server of requests).
  \<open>Framed_Actor\<close>: an actor with the streams it polls itself, which is its handlers on the inbox its
  reader makes of the bytes (locale \<open>panicking_decoder\<close>); \<open>Actor_Crashes\<close>: exactly when each of the
  three actors crashes, handlers, decoder, encoder and listener closure included. \<open>Proxy_Node\<close>: the
  server end with its mailbox, resolver and readers, and the end of its stream, as a step relation;
  \<open>Node_Writes\<close>: what it writes, and where.

  \<^bold>\<open>The whole.\<close> \<open>Tunnel_System\<close>: all SOCKS actors, the tunnel's actor, both directions as queues and
  the server end as one step relation over every interleaving, in which applications and the tunnel
  may close at any time. \<open>Tunnel_Invariants\<close>: the invariants, one for each thing conserved. \<open>Tunnel_Delivery\<close>: what applications and targets get.
  \<open>Message_Types\<close>: all messages fit the tunnel, so the queues are what \<open>Byte_Channel\<close> provides.
  \<open>System_Typing\<close>: each message is well typed and has a cause among the events of its connection.
  \<open>End_To_End\<close>: the actors of both ends over the codecs a start builds.

  \<^bold>\<open>Start-up.\<close> \<open>Launch\<close> (\<open>lib.rs\<close>, \<open>opt.rs\<close>), \<open>Connectors\<close> (\<open>connector/tcp.rs\<close>,
  \<open>connector/quic.rs\<close>), \<open>First_Stream\<close> (\<open>ext.rs\<close>), \<open>Certificates\<close> (\<open>connector/quic.rs\<close>),
  \<open>Cli_Config\<close> (\<open>opt.rs\<close> of the binary), \<open>Main_Program\<close> (\<open>main.rs\<close>): options and configuration
  files, connecting and accepting over both transports, the certificate store, the retry loop.

  \<^bold>\<open>Conventions.\<close> A panic is \<open>Inl Panic\<close>, an I/O error \<open>Inl (Err e)\<close>; inside a definition a panic may
  be \<open>None\<close>, made a result by \<open>unwrap\<close>. Integers keep their width as words; an arithmetic overflow
  panics or wraps by the parameter \<open>checks\<close>. The clock, the random numbers, the sockets and the
  file system are arguments. An actor's handler is one atomic step, as in the framework; steps of
  different actors interleave freely. Maps of the code are functions to \<open>option\<close>.

  \<^bold>\<open>Bounds and fuel.\<close> There is no fuel: the framed reader's loop is a partial function shown to end
  (\<open>reader_loop_ends\<close>), the retry loop is one shown never to return normally. Messages are below
  \<open>2 ^ 32\<close> bytes, the frame's length field; \<open>Message_Types\<close> shows that decoded ones are, for
  reads below 4 GiB. Delivery through the whole system assumes that no port is used twice; what
  happens otherwise is shown in \<open>Tunnel_Delivery\<close>.

  The step relations \<open>Proxy_Node\<close> and \<open>Tunnel_System\<close> follow a run up to its first crash; when an
  actor crashes is the subject of \<open>Actor_Crashes\<close>, on a clock that does not go backwards.

  \<^bold>\<open>Not modelled.\<close> What a panic does to the other actors of its thread. The error of a writer's
  transport, on which the framework stops the actor. The future that writes the server end's
  responses, but for its codec and for its being gone. Argument parsing, logging set-up and daemonising (crates). The sockets, QUIC and
  TLS themselves, and the error that ends a QUIC connection's agent. The DNS resolver's work
  between a request and its result. Log lines, except what a stopped SOCKS actor reports.
  \<open>crypto.rs\<close>, which no module includes; the enums \<open>ConnectionWriter\<close> and
  \<open>NegotiationMethod\<close>, which nothing uses. That an adversary cannot forge seals is not claimed:
  \<open>ring_ok\<close> only says that a seal opens under its own key, nonce and associated data, and that only
  seals open; the program uses one nonce for all frames, which voids the cipher's guarantees.
\<close>

end
